theory Spec2Isabelle
  imports
    Complex_Main
    "HOL-Library.Word"
    "HOL-Library.Log_Nat"
    "HOL-Library.Signed_Division"
    "HOL-Library.Monad_Syntax"
begin

unbundle bit_operations_syntax

section \<open>IEEE-754 binary32 arithmetic\<close>

text \<open>
  \<^verbatim>\<open>main.cpp\<close> computes in C++ \<^verbatim>\<open>float\<close>. A finite \<^verbatim>\<open>float\<close> is modelled by the real
  number it denotes, and every arithmetic operation rounds the exact result to the nearest
  binary32 value, ties to even (the default rounding mode; each operation is rounded on its
  own, so no fused multiply-add and no excess precision). Gradual underflow is modelled (the
  unit in the last place never drops below \<open>2 powi - 149\<close>); infinities, NaN and the sign of
  zero are outside the model.
\<close>

type_synonym f32 = real
type_synonym u32 = "32 word"

definition fexp :: "real \<Rightarrow> int" where
  \<comment> \<open>exponent of the unit in the last place of the binade that holds \<open>x\<close>\<close>
  "fexp x = max (bitlen \<lfloor>\<bar>x\<bar> * 2 ^ 126\<rfloor> - 150) (- 149)"

definition rne :: "real \<Rightarrow> int" where
  \<comment> \<open>nearest integer, ties to even\<close>
  "rne q = (let f = \<lfloor>q\<rfloor>; r = q - of_int f in
     if r < 1 / 2 then f else if 1 / 2 < r then f + 1 else if even f then f else f + 1)"

definition rnd :: "real \<Rightarrow> f32" where
  "rnd x = of_int (rne (x / 2 powi fexp x)) * 2 powi fexp x"

definition fadd :: "f32 \<Rightarrow> f32 \<Rightarrow> f32" where
  "fadd a b = rnd (a + b)"

definition fsub :: "f32 \<Rightarrow> f32 \<Rightarrow> f32" where
  "fsub a b = rnd (a - b)"

definition fmul :: "f32 \<Rightarrow> f32 \<Rightarrow> f32" where
  "fmul a b = rnd (a * b)"

definition fdiv :: "f32 \<Rightarrow> f32 \<Rightarrow> f32" where
  "fdiv a b = rnd (a / b)"

definition u2f :: "u32 \<Rightarrow> f32" where
  \<comment> \<open>\<^verbatim>\<open>static_cast<float>\<close> of a \<^verbatim>\<open>uint32_t\<close>, and the implicit conversion in mixed arithmetic\<close>
  "u2f w = rnd (real_of_int (uint w))"

definition i2f :: "int \<Rightarrow> f32" where
  \<comment> \<open>conversion of an \<^verbatim>\<open>int\<close> operand to \<^verbatim>\<open>float\<close>\<close>
  "i2f k = rnd (real_of_int k)"

definition f2u :: "f32 \<Rightarrow> u32 option" where
  \<comment> \<open>conversion of a \<^verbatim>\<open>float\<close> to \<^verbatim>\<open>uint32_t\<close>: the fraction is discarded, and the
      behaviour is undefined (\<open>None\<close>) when the truncated value does not fit\<close>
  "f2u v = (let t = (if 0 \<le> v then \<lfloor>v\<rfloor> else \<lceil>v\<rceil>) in
     if 0 \<le> t \<and> t < 2 ^ 32 then Some (word_of_int t) else None)"

definition std_max :: "f32 \<Rightarrow> f32 \<Rightarrow> f32" where
  \<comment> \<open>\<^verbatim>\<open>std::max(a, b)\<close> is \<^verbatim>\<open>(a < b) ? b : a\<close>\<close>
  "std_max a b = (if a < b then b else a)"

definition std_clamp :: "f32 \<Rightarrow> f32 \<Rightarrow> f32 \<Rightarrow> f32" where
  \<comment> \<open>\<^verbatim>\<open>std::clamp(v, lo, hi)\<close> is \<^verbatim>\<open>(v < lo) ? lo : (hi < v) ? hi : v\<close>\<close>
  "std_clamp v lo hi = (if v < lo then lo else if hi < v then hi else v)"

text \<open>
  The \<^verbatim>\<open><cmath>\<close> functions are taken as correctly rounded. Only the theorem on the camera
  basis depends on them, and it uses no more than that they are monotone roundings of the
  exact functions.
\<close>

definition sinf :: "f32 \<Rightarrow> f32" where
  "sinf a = rnd (sin a)"

definition cosf :: "f32 \<Rightarrow> f32" where
  "cosf a = rnd (cos a)"

definition tanf :: "f32 \<Rightarrow> f32" where
  "tanf a = rnd (tan a)"

definition sqrtf :: "f32 \<Rightarrow> f32" where
  "sqrtf a = rnd (sqrt a)"

section \<open>Constants\<close>

definition WIDTH :: int where
  \<comment> \<open>Modelled from the spec: \<^verbatim>\<open>config.h\<close>, which defines \<^verbatim>\<open>WIDTH\<close>, \<^verbatim>\<open>HEIGHT\<close> and
      \<^verbatim>\<open>THREADS\<close>, is not among the sources; the spec fixes the output image at 960 by 720.\<close>
  "WIDTH = 960"

definition HEIGHT :: int where
  \<comment> \<open>Modelled from the spec: see \<^const>\<open>WIDTH\<close>. The work-group size \<^verbatim>\<open>THREADS\<close>, on which the
      spec is silent, is a parameter of \<open>Draw\<close>.\<close>
  "HEIGHT = 720"

definition kPan :: f32 where
  "kPan = rnd (2 / 1000)"

definition kZoom :: f32 where
  "kZoom = rnd 25000000000"

definition kFov :: f32 where
  \<comment> \<open>\<^verbatim>\<open>glm::radians<float>(60.0f)\<close> multiplies by the \<^verbatim>\<open>float\<close> nearest to \<open>pi / 180\<close>\<close>
  "kFov = fmul 60 (rnd (1745329251994329576923690768489 / 10 ^ 32))"

definition kC :: f32 where
  "kC = rnd 299792458"

definition kG :: f32 where
  "kG = rnd (667430 / 10 ^ 16)"

definition kBlackHoleMass :: f32 where
  "kBlackHoleMass = rnd (854 * 10 ^ 34)"

definition kBlackHoleRadius :: f32 where
  "kBlackHoleRadius = fdiv (fmul (fmul 2 kG) kBlackHoleMass) (fmul kC kC)"

definition glm_pi :: f32 where
  \<comment> \<open>\<^verbatim>\<open>glm::pi<float>()\<close>\<close>
  "glm_pi = rnd (314159265358979323846264338327950288 / 10 ^ 35)"

definition kClamp :: f32 where
  "kClamp = fsub (fdiv glm_pi 2) (rnd (1 / 100))"

section \<open>Host state\<close>

record vec3 =
  vec_x :: f32
  vec_y :: f32
  vec_z :: f32

record UniformBuffer =
  CameraPosition :: vec3
  TanHalfFov :: f32
  CameraRight :: vec3
  Aspect :: f32
  CameraUp :: vec3
  ObjectCount :: u32
  CameraForward :: vec3
  DiskR1 :: f32
  DiskR2 :: f32

text \<open>The file-scope variables that the event loop and \<^verbatim>\<open>Draw\<close> read and write.\<close>

record host =
  pitch :: f32
  yaw :: f32
  distance :: f32
  uniformBuffer :: UniformBuffer

definition vec0 :: vec3 where
  "vec0 = \<lparr>vec_x = 0, vec_y = 0, vec_z = 0\<rparr>"

definition host_init :: host where
  \<comment> \<open>the statics when the event loop starts: zero-initialised, with the default member
      initialisers, \<^verbatim>\<open>distance{1.0e11f}\<close> and the \<^verbatim>\<open>ObjectCount = 3\<close> of \<^verbatim>\<open>Init\<close>\<close>
  "host_init = \<lparr>pitch = 0, yaw = 0, distance = rnd 100000000000,
     uniformBuffer = \<lparr>CameraPosition = vec0, TanHalfFov = 0, CameraRight = vec0, Aspect = 0,
       CameraUp = vec0, ObjectCount = 3, CameraForward = vec0,
       DiskR1 = fmul kBlackHoleRadius (rnd (22 / 10)),
       DiskR2 = fmul kBlackHoleRadius (rnd (52 / 10))\<rparr>\<rparr>"

section \<open>Vector operations of glm\<close>

definition vec_neg :: "vec3 \<Rightarrow> vec3" where
  "vec_neg v = \<lparr>vec_x = - vec_x v, vec_y = - vec_y v, vec_z = - vec_z v\<rparr>"

definition vec_scale :: "vec3 \<Rightarrow> f32 \<Rightarrow> vec3" where
  "vec_scale v k = \<lparr>vec_x = fmul (vec_x v) k, vec_y = fmul (vec_y v) k, vec_z = fmul (vec_z v) k\<rparr>"

definition glm_dot :: "vec3 \<Rightarrow> vec3 \<Rightarrow> f32" where
  "glm_dot a b =
     fadd (fadd (fmul (vec_x a) (vec_x b)) (fmul (vec_y a) (vec_y b))) (fmul (vec_z a) (vec_z b))"

definition glm_inversesqrt :: "f32 \<Rightarrow> f32" where
  "glm_inversesqrt a = fdiv 1 (sqrtf a)"

definition glm_normalize :: "vec3 \<Rightarrow> vec3" where
  "glm_normalize v = vec_scale v (glm_inversesqrt (glm_dot v v))"

definition glm_cross :: "vec3 \<Rightarrow> vec3 \<Rightarrow> vec3" where
  "glm_cross a b =
     \<lparr>vec_x = fsub (fmul (vec_y a) (vec_z b)) (fmul (vec_y b) (vec_z a)),
      vec_y = fsub (fmul (vec_z a) (vec_x b)) (fmul (vec_z b) (vec_x a)),
      vec_z = fsub (fmul (vec_x a) (vec_y b)) (fmul (vec_x b) (vec_y a))\<rparr>"

section \<open>Event handling\<close>

datatype event =
  MOUSE_WHEEL f32
| MOUSE_MOTION u32 f32 f32
| QUIT
| OTHER

definition SDL_BUTTON_LMASK :: u32 where
  "SDL_BUTTON_LMASK = 1"

fun handle_event :: "event \<Rightarrow> host \<times> bool \<Rightarrow> host \<times> bool" where
  "handle_event (MOUSE_WHEEL wheel_y) (s, running) =
     (s\<lparr>distance := std_max 1 (fsub (distance s) (fmul wheel_y kZoom))\<rparr>, running)"
| "handle_event (MOUSE_MOTION state xrel yrel) (s, running) =
     (if state AND SDL_BUTTON_LMASK \<noteq> 0
      then (s\<lparr>yaw := fadd (yaw s) (fmul xrel kPan),
              pitch := std_clamp (fadd (pitch s) (fmul yrel kPan)) (- kClamp) kClamp\<rparr>, running)
      else (s, running))"
| "handle_event QUIT (s, running) = (s, False)"
| "handle_event OTHER (s, running) = (s, running)"

fun PollEvents :: "event list \<Rightarrow> host \<times> bool \<Rightarrow> host \<times> bool" where
  \<comment> \<open>the inner \<^verbatim>\<open>while (SDL_PollEvent(&event))\<close>: every queued event, in arrival order\<close>
  "PollEvents [] st = st"
| "PollEvents (e # es) st = PollEvents es (handle_event e st)"

section \<open>Drawing a frame\<close>

record rect =
  rect_x :: u32
  rect_y :: u32
  rect_w :: u32
  rect_h :: u32

definition letterbox :: "u32 \<Rightarrow> u32 \<Rightarrow> rect option" where
  \<comment> \<open>the destination rectangle of the blit, lines 222 to 239 of \<^verbatim>\<open>main.cpp\<close>\<close>
  "letterbox width height =
     (if fdiv (i2f WIDTH) (i2f HEIGHT) > fdiv (u2f width) (u2f height)
      then do {
        let letterboxW = width;
        letterboxH \<leftarrow> f2u (fdiv (fmul (i2f HEIGHT) (u2f width)) (i2f WIDTH));
        letterboxX \<leftarrow> f2u 0;
        letterboxY \<leftarrow> f2u (fdiv (u2f (height - letterboxH)) 2);
        Some \<lparr>rect_x = letterboxX, rect_y = letterboxY, rect_w = letterboxW, rect_h = letterboxH\<rparr>
      }
      else do {
        let letterboxH = height;
        letterboxW \<leftarrow> f2u (fdiv (fmul (i2f WIDTH) (u2f height)) (i2f HEIGHT));
        letterboxX \<leftarrow> f2u (fdiv (u2f (width - letterboxW)) 2);
        letterboxY \<leftarrow> f2u 0;
        Some \<lparr>rect_x = letterboxX, rect_y = letterboxY, rect_w = letterboxW, rect_h = letterboxH\<rparr>
      })"

definition cint :: "int \<Rightarrow> int option" where
  \<comment> \<open>a result of \<^verbatim>\<open>int\<close> arithmetic: undefined behaviour (\<open>None\<close>) outside 32 bits\<close>
  "cint k = (if - (2 ^ 31) \<le> k \<and> k < 2 ^ 31 then Some k else None)"

definition groups :: "int \<Rightarrow> int \<Rightarrow> int option" where
  \<comment> \<open>\<^verbatim>\<open>(WIDTH + THREADS - 1) / THREADS\<close>, and the same for \<^verbatim>\<open>HEIGHT\<close>, in \<^verbatim>\<open>int\<close>: the
      division truncates towards zero, and overflow or a zero divisor is undefined\<close>
  "groups extent THREADS = do {
     a \<leftarrow> cint (extent + THREADS);
     b \<leftarrow> cint (a - 1);
     if THREADS = 0 then None else cint (b sdiv THREADS)
   }"

definition frame_params :: "host \<Rightarrow> UniformBuffer" where
  \<comment> \<open>the block that fills \<^verbatim>\<open>uniformBuffer\<close>, lines 191 to 201\<close>
  "frame_params s =
     (let u1 = (uniformBuffer s)\<lparr>TanHalfFov := tanf (fmul kFov (1 / 2)),
                                 Aspect := fdiv (i2f WIDTH) (i2f HEIGHT)\<rparr>;
          forward = glm_normalize \<lparr>vec_x = fmul (cosf (pitch s)) (cosf (yaw s)),
                                   vec_y = sinf (pitch s),
                                   vec_z = fmul (cosf (pitch s)) (sinf (yaw s))\<rparr>;
          right = glm_normalize (glm_cross forward \<lparr>vec_x = 0, vec_y = 1, vec_z = 0\<rparr>);
          up = glm_normalize (glm_cross right forward)
      in u1\<lparr>CameraForward := forward,
            CameraPosition := vec_scale (vec_neg forward) (distance s),
            CameraRight := right,
            CameraUp := up\<rparr>)"

text \<open>
  What the device answers during one frame: whether a command buffer is handed out, whether
  the swapchain texture is acquired, the texture (null or not) and its size, and whether the
  compute pass begins.
\<close>

record frame_env =
  commandBuffer_ok :: bool
  swapchain_ok :: bool
  swapchainTexture_ok :: bool
  swapchain_width :: u32
  swapchain_height :: u32
  computePass_ok :: bool

text \<open>The calls that \<^verbatim>\<open>Draw\<close> makes, in program order, with the arguments that vary.\<close>

datatype gpu_call =
  SDL_AcquireGPUCommandBuffer
| SDL_WaitAndAcquireGPUSwapchainTexture
| SDL_CancelGPUCommandBuffer
| SDL_SubmitGPUCommandBuffer
| SDL_BeginGPUComputePass
| SDL_BindGPUComputePipeline
| SDL_PushGPUComputeUniformData UniformBuffer
| SDL_BindGPUComputeStorageBuffers
| SDL_DispatchGPUCompute u32 u32 u32
| SDL_EndGPUComputePass
| SDL_BlitGPUTexture u32 u32 rect
| SDL_Log string

definition Draw :: "int \<Rightarrow> frame_env \<Rightarrow> host \<Rightarrow> (host \<times> gpu_call list) option" where
  \<comment> \<open>\<^verbatim>\<open>Draw()\<close>, given the work-group size of \<^verbatim>\<open>config.h\<close> and the answers of the device;
      the result is the statics after the frame and the calls made, or \<open>None\<close> where the
      behaviour of the C++ is undefined\<close>
  "Draw THREADS env s =
     (if \<not> commandBuffer_ok env then
        Some (s, [SDL_AcquireGPUCommandBuffer, SDL_Log ''Failed to acquire command buffer''])
      else if \<not> swapchain_ok env then
        Some (s, [SDL_AcquireGPUCommandBuffer, SDL_WaitAndAcquireGPUSwapchainTexture,
                  SDL_Log ''Failed to acquire swapchain texture'', SDL_CancelGPUCommandBuffer])
      else if \<not> swapchainTexture_ok env \<or> swapchain_width env = 0 \<or> swapchain_height env = 0 then
        Some (s, [SDL_AcquireGPUCommandBuffer, SDL_WaitAndAcquireGPUSwapchainTexture,
                  SDL_SubmitGPUCommandBuffer])
      else
        let s' = s\<lparr>uniformBuffer := frame_params s\<rparr> in
        if \<not> computePass_ok env then
          Some (s', [SDL_AcquireGPUCommandBuffer, SDL_WaitAndAcquireGPUSwapchainTexture,
                     SDL_BeginGPUComputePass, SDL_Log ''Failed to begin compute pass'',
                     SDL_SubmitGPUCommandBuffer])
        else do {
          groupsX \<leftarrow> groups WIDTH THREADS;
          groupsY \<leftarrow> groups HEIGHT THREADS;
          box \<leftarrow> letterbox (swapchain_width env) (swapchain_height env);
          Some (s', [SDL_AcquireGPUCommandBuffer, SDL_WaitAndAcquireGPUSwapchainTexture,
                     SDL_BeginGPUComputePass, SDL_BindGPUComputePipeline,
                     SDL_PushGPUComputeUniformData (uniformBuffer s'),
                     SDL_BindGPUComputeStorageBuffers,
                     SDL_DispatchGPUCompute (word_of_int groupsX) (word_of_int groupsY) 1,
                     SDL_EndGPUComputePass,
                     SDL_BlitGPUTexture (word_of_int WIDTH) (word_of_int HEIGHT) box,
                     SDL_SubmitGPUCommandBuffer])
        })"

section \<open>The event loop\<close>

text \<open>
  One element of the input is one iteration of \<^verbatim>\<open>while (running)\<close>: the events queued when
  it starts and what the device answers to its \<^verbatim>\<open>Draw\<close>. The loop returns the final statics,
  the calls of each frame drawn, and whether it is still running when the input ends.
\<close>

fun main_loop ::
  "int \<Rightarrow> (event list \<times> frame_env) list \<Rightarrow> host \<Rightarrow> (host \<times> gpu_call list list \<times> bool) option"
where
  "main_loop THREADS [] s = Some (s, [], True)"
| "main_loop THREADS ((evs, env) # rest) s =
     (case PollEvents evs (s, True) of (s1, running) \<Rightarrow>
        do {
          (s2, calls) \<leftarrow> Draw THREADS env s1;
          if running
          then do {
            (s3, frames, r) \<leftarrow> main_loop THREADS rest s2;
            Some (s3, calls # frames, r)
          }
          else Some (s2, [calls], False)
        })"

section \<open>Sample device answers\<close>

text \<open>Concrete answers of the device, used where a theorem is run on an example frame.\<close>

definition frame_ok :: "u32 \<Rightarrow> u32 \<Rightarrow> frame_env" where
  "frame_ok w h = \<lparr>commandBuffer_ok = True, swapchain_ok = True, swapchainTexture_ok = True,
     swapchain_width = w, swapchain_height = h, computePass_ok = True\<rparr>"

definition frame_no_pass :: frame_env where
  "frame_no_pass = (frame_ok 960 720)\<lparr>computePass_ok := False\<rparr>"

definition frame_no_swapchain :: frame_env where
  "frame_no_swapchain = (frame_ok 960 720)\<lparr>swapchain_ok := False\<rparr>"

section \<open>Measuring the camera basis\<close>

text \<open>
  The spec speaks of the camera vectors as vectors of real numbers: their dot products, their
  magnitudes and their orientation. These are the exact operations on the values that the
  \<^verbatim>\<open>float\<close> components denote, with no rounding; \<^const>\<open>glm_dot\<close> and \<^const>\<open>glm_cross\<close> are what
  the program computes, the functions below are what the spec measures.
\<close>

definition vdot :: "vec3 \<Rightarrow> vec3 \<Rightarrow> real" where
  \<comment> \<open>the exact dot product\<close>
  "vdot a b = vec_x a * vec_x b + vec_y a * vec_y b + vec_z a * vec_z b"

definition vcross :: "vec3 \<Rightarrow> vec3 \<Rightarrow> vec3" where
  \<comment> \<open>the exact cross product\<close>
  "vcross a b =
     \<lparr>vec_x = vec_y a * vec_z b - vec_y b * vec_z a,
      vec_y = vec_z a * vec_x b - vec_z b * vec_x a,
      vec_z = vec_x a * vec_y b - vec_x b * vec_y a\<rparr>"

definition vnorm :: "vec3 \<Rightarrow> real" where
  \<comment> \<open>the magnitude\<close>
  "vnorm v = sqrt (vdot v v)"

definition triple :: "vec3 \<Rightarrow> vec3 \<Rightarrow> vec3 \<Rightarrow> real" where
  \<comment> \<open>the triple product \<open>(a \<times> b) \<cdot> c\<close>, the determinant of the three vectors: 1 for a
      right-handed orthonormal triple, \<open>- 1\<close> for a left-handed one\<close>
  "triple a b c = vdot (vcross a b) c"

definition orthonormal_within :: "real \<Rightarrow> vec3 \<Rightarrow> vec3 \<Rightarrow> vec3 \<Rightarrow> bool" where
  \<comment> \<open>pairwise dot products zero and each magnitude one, within the tolerance \<open>e\<close>\<close>
  "orthonormal_within e a b c \<longleftrightarrow>
     \<bar>vdot a b\<bar> \<le> e \<and> \<bar>vdot a c\<bar> \<le> e \<and> \<bar>vdot b c\<bar> \<le> e \<and>
     \<bar>vnorm a - 1\<bar> \<le> e \<and> \<bar>vnorm b - 1\<bar> \<le> e \<and> \<bar>vnorm c - 1\<bar> \<le> e"

definition vunit :: "vec3 \<Rightarrow> vec3" where
  \<comment> \<open>the exact unit vector along \<open>v\<close>\<close>
  "vunit v = \<lparr>vec_x = vec_x v / vnorm v, vec_y = vec_y v / vnorm v, vec_z = vec_z v / vnorm v\<rparr>"

definition vnear :: "real \<Rightarrow> vec3 \<Rightarrow> vec3 \<Rightarrow> bool" where
  \<comment> \<open>each component of \<open>a\<close> is within \<open>e\<close> of that of \<open>b\<close>\<close>
  "vnear e a b \<longleftrightarrow>
     \<bar>vec_x a - vec_x b\<bar> \<le> e \<and> \<bar>vec_y a - vec_y b\<bar> \<le> e \<and> \<bar>vec_z a - vec_z b\<bar> \<le> e"

section \<open>Rounding to binary32\<close>

lemma rne_of_int: "rne (of_int k) = k"
  by (simp add: rne_def)

lemma rne_cases: "rne q = \<lfloor>q\<rfloor> \<or> rne q = \<lfloor>q\<rfloor> + 1"
  by (simp add: rne_def Let_def)

lemma rne_same_floor:
  assumes "x \<le> y" and "\<lfloor>x\<rfloor> = \<lfloor>y\<rfloor>"
  shows "rne x \<le> rne y"
proof -
  have "x - of_int \<lfloor>y\<rfloor> \<le> y - of_int \<lfloor>y\<rfloor>"
    using assms(1) by simp
  then show ?thesis
    unfolding rne_def Let_def assms(2) by auto
qed

lemma rne_mono: "x \<le> y \<Longrightarrow> rne x \<le> rne y"
proof (cases "\<lfloor>x\<rfloor> = \<lfloor>y\<rfloor>")
  case True
  assume "x \<le> y"
  then show ?thesis using True by (rule rne_same_floor)
next
  case False
  assume "x \<le> y"
  then have "\<lfloor>x\<rfloor> \<le> \<lfloor>y\<rfloor>" by (rule floor_mono)
  with False have "\<lfloor>x\<rfloor> + 1 \<le> \<lfloor>y\<rfloor>" by simp
  moreover have "rne x \<le> \<lfloor>x\<rfloor> + 1" using rne_cases [of x] by linarith
  moreover have "\<lfloor>y\<rfloor> \<le> rne y" using rne_cases [of y] by linarith
  ultimately show ?thesis by linarith
qed

lemma rne_minus: "rne (- q) = - rne q"
proof (cases "q = of_int \<lfloor>q\<rfloor>")
  case True
  then obtain k where "q = of_int k" ..
  then have "- q = of_int (- k)" by simp
  then show ?thesis using \<open>q = of_int k\<close> by (simp only: rne_of_int)
next
  case False
  moreover have "of_int \<lfloor>q\<rfloor> \<le> q" by (rule of_int_floor_le)
  ultimately have lt: "of_int \<lfloor>q\<rfloor> < q" by linarith
  have fl: "\<lfloor>- q\<rfloor> = - \<lfloor>q\<rfloor> - 1"
    using False lt by (intro floor_unique) (auto, linarith)
  show ?thesis
    unfolding rne_def Let_def fl using lt by auto
qed

lemma rne_err: "\<bar>of_int (rne q) - q\<bar> \<le> 1 / 2"
  unfolding rne_def Let_def by (auto simp: abs_if) linarith+

lemma fexp_ge: "- 149 \<le> fexp x"
  by (simp add: fexp_def)

lemma fexp_minus: "fexp (- x) = fexp x"
  by (simp add: fexp_def)

lemma fexp_mono: "\<bar>x\<bar> \<le> \<bar>y\<bar> \<Longrightarrow> fexp x \<le> fexp y"
proof -
  assume "\<bar>x\<bar> \<le> \<bar>y\<bar>"
  then have "\<lfloor>\<bar>x\<bar> * 2 ^ 126\<rfloor> \<le> \<lfloor>\<bar>y\<bar> * 2 ^ 126\<rfloor>"
    by (intro floor_mono) simp
  then have "bitlen \<lfloor>\<bar>x\<bar> * 2 ^ 126\<rfloor> \<le> bitlen \<lfloor>\<bar>y\<bar> * 2 ^ 126\<rfloor>"
    unfolding bitlen_def by (intro iffD2 [OF of_nat_le_iff] floorlog_mono nat_mono)
  then show ?thesis by (simp add: fexp_def)
qed

lemma two_powi_pos: "0 < (2::real) powi k"
  by simp

lemma fexp_upper: "\<bar>x\<bar> < 2 powi (fexp x + 24)"
proof -
  define n where "n = \<lfloor>\<bar>x\<bar> * 2 ^ 126\<rfloor>"
  have n0: "0 \<le> n" by (simp add: n_def)
  have "n < 2 ^ nat (bitlen n)"
  proof (cases "n = 0")
    case True then show ?thesis by simp
  next
    case False
    with n0 have "0 < n" by simp
    then show ?thesis using bitlen_bounds by blast
  qed
  then have "n + 1 \<le> 2 ^ nat (bitlen n)" by simp
  then have "real_of_int (n + 1) \<le> real_of_int (2 ^ nat (bitlen n))" by (rule of_int_le_iff [THEN iffD2])
  moreover have "\<bar>x\<bar> * 2 ^ 126 < real_of_int (n + 1)"
    unfolding n_def by linarith
  ultimately have "\<bar>x\<bar> * 2 ^ 126 < 2 ^ nat (bitlen n)" by simp
  also have "\<dots> = 2 powi bitlen n"
    using bitlen_nonneg [of n] by (simp add: power_int_def)
  finally have "\<bar>x\<bar> * 2 powi 126 < 2 powi bitlen n" by simp
  then have "\<bar>x\<bar> * 2 powi 126 * 2 powi (- 126) < 2 powi bitlen n * 2 powi (- 126)"
    by (intro mult_strict_right_mono two_powi_pos)
  then have "\<bar>x\<bar> < 2 powi (bitlen n - 126)"
    by (simp add: power_int_diff power_int_minus field_simps)
  also have "\<dots> \<le> 2 powi (fexp x + 24)"
    by (intro power_int_increasing) (simp_all add: fexp_def n_def)
  finally show ?thesis .
qed

lemma fexp_lower:
  assumes "- 149 < fexp x"
  shows "2 powi (fexp x + 23) \<le> \<bar>x\<bar>"
proof -
  define n where "n = \<lfloor>\<bar>x\<bar> * 2 ^ 126\<rfloor>"
  have e: "fexp x = bitlen n - 150" and b: "1 < bitlen n"
    using assms by (simp_all add: fexp_def n_def max_def split: if_splits)
  have "n \<noteq> 0" using b by auto
  moreover have "0 \<le> n" by (simp add: n_def)
  ultimately have "0 < n" by simp
  then have "2 ^ nat (bitlen n - 1) \<le> n" using bitlen_bounds by blast
  then have "real_of_int (2 ^ nat (bitlen n - 1)) \<le> real_of_int n" by (rule of_int_le_iff [THEN iffD2])
  then have "(2::real) ^ nat (bitlen n - 1) \<le> real_of_int n" by simp
  moreover have "real_of_int n \<le> \<bar>x\<bar> * 2 ^ 126" unfolding n_def by (rule of_int_floor_le)
  ultimately have "2 ^ nat (bitlen n - 1) \<le> \<bar>x\<bar> * 2 ^ 126" by (rule order_trans)
  moreover have "(2::real) ^ nat (bitlen n - 1) = 2 powi (bitlen n - 1)"
    using b by (simp add: power_int_def)
  ultimately have "2 powi (bitlen n - 1) \<le> \<bar>x\<bar> * 2 powi 126" by simp
  then have "2 powi (bitlen n - 1) * 2 powi (- 126) \<le> \<bar>x\<bar> * 2 powi 126 * 2 powi (- 126)"
    by (intro mult_right_mono) simp_all
  then have "2 powi (bitlen n - 1 - 126) \<le> \<bar>x\<bar>"
    by (simp add: power_int_diff power_int_minus field_simps)
  then show ?thesis by (simp add: e)
qed

lemma rnd_minus: "rnd (- x) = - rnd x"
  by (simp add: rnd_def fexp_minus rne_minus)

lemma rnd_nonneg: "0 \<le> x \<Longrightarrow> 0 \<le> rnd x"
proof -
  assume "0 \<le> x"
  then have "rne 0 \<le> rne (x / 2 powi fexp x)" by (intro rne_mono) simp
  then have "0 \<le> rne (x / 2 powi fexp x)" using rne_of_int [of 0] by simp
  then show ?thesis by (simp add: rnd_def)
qed

lemma rnd_upper:
  assumes "0 \<le> x"
  shows "rnd x \<le> 2 powi (fexp x + 24)"
proof -
  have "x < 2 powi (fexp x + 24)" using fexp_upper [of x] assms by simp
  then have "x / 2 powi fexp x \<le> 2 powi (fexp x + 24) / 2 powi fexp x"
    by (intro divide_right_mono) simp_all
  also have "\<dots> = real_of_int (2 ^ 24)" by (simp add: power_int_add)
  finally have "rne (x / 2 powi fexp x) \<le> rne (real_of_int (2 ^ 24))" by (rule rne_mono)
  then have "rne (x / 2 powi fexp x) \<le> 2 ^ 24" by (simp only: rne_of_int)
  then have "real_of_int (rne (x / 2 powi fexp x)) \<le> real_of_int (2 ^ 24)"
    by (rule of_int_le_iff [THEN iffD2])
  then have "rnd x \<le> real_of_int (2 ^ 24) * 2 powi fexp x"
    unfolding rnd_def by (intro mult_right_mono) simp_all
  then show ?thesis by (simp add: power_int_add)
qed

lemma rnd_lower:
  assumes "- 149 < fexp x" and "0 \<le> x"
  shows "2 powi (fexp x + 23) \<le> rnd x"
proof -
  have "2 powi (fexp x + 23) \<le> x" using fexp_lower [OF assms(1)] assms(2) by simp
  then have "2 powi (fexp x + 23) / 2 powi fexp x \<le> x / 2 powi fexp x"
    by (intro divide_right_mono) simp_all
  moreover have "2 powi (fexp x + 23) / 2 powi fexp x = real_of_int (2 ^ 23)"
    by (simp add: power_int_add)
  ultimately have "rne (real_of_int (2 ^ 23)) \<le> rne (x / 2 powi fexp x)"
    by (intro rne_mono) simp
  then have "2 ^ 23 \<le> rne (x / 2 powi fexp x)" by (simp only: rne_of_int)
  then have "real_of_int (2 ^ 23) \<le> real_of_int (rne (x / 2 powi fexp x))"
    by (rule of_int_le_iff [THEN iffD2])
  then have "real_of_int (2 ^ 23) * 2 powi fexp x \<le> rnd x"
    unfolding rnd_def by (intro mult_right_mono) simp_all
  then show ?thesis by (simp add: power_int_add)
qed

lemma rnd_mono_nonneg:
  assumes "0 \<le> x" and "x \<le> y"
  shows "rnd x \<le> rnd y"
proof (cases "fexp x = fexp y")
  case True
  have "x / 2 powi fexp y \<le> y / 2 powi fexp y"
    using assms(2) by (intro divide_right_mono) simp_all
  then have "rne (x / 2 powi fexp y) \<le> rne (y / 2 powi fexp y)" by (rule rne_mono)
  then have "real_of_int (rne (x / 2 powi fexp y)) \<le> real_of_int (rne (y / 2 powi fexp y))"
    by (rule of_int_le_iff [THEN iffD2])
  then show ?thesis unfolding rnd_def True by (intro mult_right_mono) simp_all
next
  case False
  have "fexp x \<le> fexp y" using assms by (intro fexp_mono) simp
  with False have lt: "fexp x < fexp y" by simp
  then have "- 149 < fexp y" using fexp_ge [of x] by simp
  then have "2 powi (fexp y + 23) \<le> rnd y" using assms by (intro rnd_lower) simp_all
  moreover have "rnd x \<le> 2 powi (fexp x + 24)" using assms(1) by (rule rnd_upper)
  moreover have "(2::real) powi (fexp x + 24) \<le> 2 powi (fexp y + 23)"
    using lt by (intro power_int_increasing) simp_all
  ultimately show ?thesis by linarith
qed

lemma rnd_mono: "x \<le> y \<Longrightarrow> rnd x \<le> rnd y"
proof -
  assume le: "x \<le> y"
  consider "0 \<le> x" | "x < 0" "0 \<le> y" | "y < 0" by linarith
  then show ?thesis
  proof cases
    case 1
    then show ?thesis using le by (rule rnd_mono_nonneg)
  next
    case 2
    have "0 \<le> rnd (- x)" using 2 by (intro rnd_nonneg) simp
    moreover have "0 \<le> rnd y" using 2 by (intro rnd_nonneg)
    ultimately show ?thesis by (simp add: rnd_minus)
  next
    case 3
    have "rnd (- y) \<le> rnd (- x)" using 3 le by (intro rnd_mono_nonneg) simp_all
    then show ?thesis by (simp add: rnd_minus)
  qed
qed

lemma two_powi_less_D: "(2::real) powi a < 2 powi b \<Longrightarrow> a < b"
  using power_int_increasing [of b a "2::real"] by (cases "a < b") simp_all

lemma rnd_exact:
  assumes "\<bar>m\<bar> < 2 ^ 24" and "- 149 \<le> k"
  shows "rnd (real_of_int m * 2 powi k) = real_of_int m * 2 powi k"
proof -
  define x where "x = real_of_int m * 2 powi k"
  define e where "e = fexp x"
  have le: "e \<le> k"
  proof (cases "- 149 < fexp x")
    case True
    then have "2 powi (fexp x + 23) \<le> \<bar>x\<bar>" by (rule fexp_lower)
    also have "\<bar>x\<bar> = real_of_int \<bar>m\<bar> * 2 powi k" by (simp add: x_def abs_mult)
    also have "\<dots> < real_of_int (2 ^ 24) * 2 powi k"
      using assms(1) by (intro mult_strict_right_mono of_int_less_iff [THEN iffD2]) simp_all
    also have "\<dots> = 2 powi (k + 24)" by (simp add: power_int_add)
    finally have "fexp x + 23 < k + 24"
      by (rule two_powi_less_D)
    then show ?thesis by (simp add: e_def)
  next
    case False
    then show ?thesis using fexp_ge [of x] assms(2) by (simp add: e_def)
  qed
  then obtain d where d: "k = e + int d"
    using zle_iff_zadd by auto
  have x: "x = real_of_int (m * 2 ^ d) * 2 powi e"
    unfolding x_def d by (simp add: power_int_add)
  have "x / 2 powi e = real_of_int (m * 2 ^ d)"
    unfolding x by simp
  then have "rne (x / 2 powi e) = m * 2 ^ d" by (simp only: rne_of_int)
  then have "rnd x = real_of_int (m * 2 ^ d) * 2 powi e"
    unfolding rnd_def e_def by (rule arg_cong)
  then have "rnd x = x" using x by simp
  then show ?thesis unfolding x_def .
qed

lemma rnd_int: "\<bar>m\<bar> \<le> 2 ^ 24 \<Longrightarrow> rnd (real_of_int m) = real_of_int m"
proof (cases "\<bar>m\<bar> < 2 ^ 24")
  case True
  then show ?thesis using rnd_exact [of m 0] by simp
next
  case False
  assume "\<bar>m\<bar> \<le> 2 ^ 24"
  with False have "m = 16777216 \<or> m = - 16777216" by (simp add: abs_if split: if_splits)
  moreover have "rnd (real_of_int 8388608 * 2 powi 1) = real_of_int 8388608 * 2 powi 1"
    by (rule rnd_exact) simp_all
  moreover have "rnd (real_of_int (- 8388608) * 2 powi 1) = real_of_int (- 8388608) * 2 powi 1"
    by (rule rnd_exact) simp_all
  ultimately show ?thesis by auto
qed

lemma rnd_err:
  assumes "- 149 < fexp x"
  shows "\<bar>rnd x - x\<bar> \<le> \<bar>x\<bar> / 2 ^ 24"
proof -
  define u :: real where "u = 2 powi fexp x"
  define q where "q = x / u"
  have u: "0 < u" by (simp add: u_def)
  have x: "x = q * u" using u by (simp add: q_def)
  have r: "rnd x = real_of_int (rne q) * u" by (simp add: rnd_def q_def u_def)
  have "rnd x - x = (real_of_int (rne q) - q) * u"
    unfolding r by (subst x) (simp add: left_diff_distrib)
  then have "\<bar>rnd x - x\<bar> = \<bar>real_of_int (rne q) - q\<bar> * u"
    using u by (simp add: abs_mult)
  also have "\<dots> \<le> 1 / 2 * u"
    using u rne_err [of q] by (intro mult_right_mono) simp_all
  finally have "\<bar>rnd x - x\<bar> \<le> u / 2" by simp
  moreover have "u * 2 ^ 23 \<le> \<bar>x\<bar>"
    using fexp_lower [OF assms] unfolding u_def by (simp add: power_int_add)
  ultimately show ?thesis by simp
qed

lemma fexp_normal:
  assumes "1 \<le> \<bar>x\<bar>"
  shows "- 149 < fexp x"
proof (rule ccontr)
  assume "\<not> - 149 < fexp x"
  then have "fexp x = - 149" using fexp_ge [of x] by simp
  then have "\<bar>x\<bar> < 2 powi (- 125)" using fexp_upper [of x] by simp
  also have "\<dots> \<le> 1" by (simp add: power_int_minus)
  finally show False using assms by simp
qed

lemma rnd_le_rel:
  assumes "1 \<le> x"
  shows "rnd x \<le> x + x / 2 ^ 24"
proof -
  have "\<bar>rnd x - x\<bar> \<le> \<bar>x\<bar> / 2 ^ 24" using assms by (intro rnd_err fexp_normal) simp
  moreover have "\<bar>x\<bar> = x" using assms by simp
  ultimately show ?thesis by linarith
qed

lemma rnd_ge_rel:
  assumes "1 \<le> x"
  shows "x - x / 2 ^ 24 \<le> rnd x"
proof -
  have "\<bar>rnd x - x\<bar> \<le> \<bar>x\<bar> / 2 ^ 24" using assms by (intro rnd_err fexp_normal) simp
  moreover have "\<bar>x\<bar> = x" using assms by simp
  ultimately show ?thesis by linarith
qed

lemma rne_tie_even: "even m \<Longrightarrow> rne (real_of_int m + 1 / 2) = m"
proof -
  assume "even m"
  have "\<lfloor>real_of_int m + 1 / 2\<rfloor> = m" by (intro floor_unique) simp_all
  then show ?thesis using \<open>even m\<close> by (simp add: rne_def)
qed

lemma fexp_unit:
  assumes "1 \<le> x" and "x < 2"
  shows "fexp x = - 23"
proof -
  have n: "- 149 < fexp x" using assms(1) by (intro fexp_normal) simp
  have "2 powi (fexp x + 23) \<le> \<bar>x\<bar>" using n by (rule fexp_lower)
  also have "\<dots> < 2 powi 1" using assms by simp
  finally have "fexp x + 23 < 1" by (rule two_powi_less_D)
  moreover have "2 powi 0 \<le> \<bar>x\<bar>" using assms(1) by simp
  then have "(2::real) powi 0 < 2 powi (fexp x + 24)" using fexp_upper [of x] by (rule le_less_trans)
  then have "0 < fexp x + 24" by (rule two_powi_less_D)
  ultimately show ?thesis by simp
qed

lemma rnd_below_aspect:
  assumes "x \<le> 22369621 / 16777216"
  shows "rnd x \<le> 11184810 / 8388608"
proof (cases "x < 1")
  case True
  then have "rnd x \<le> rnd 1" by (intro rnd_mono) simp
  also have "rnd 1 = 1" using rnd_int [of 1] by simp
  finally show ?thesis by simp
next
  case False
  then have e: "fexp x = - 23" using assms by (intro fexp_unit) simp_all
  have "x / 2 powi (- 23) \<le> real_of_int 11184810 + 1 / 2"
    using assms by (simp add: power_int_minus)
  then have "rne (x / 2 powi (- 23)) \<le> rne (real_of_int 11184810 + 1 / 2)" by (rule rne_mono)
  also have "\<dots> = 11184810" by (rule rne_tie_even) simp
  finally have "real_of_int (rne (x / 2 powi (- 23))) \<le> real_of_int 11184810"
    by (rule of_int_le_iff [THEN iffD2])
  then show ?thesis by (simp add: rnd_def e power_int_minus)
qed

section \<open>The letterbox arithmetic\<close>

lemma i2f_WIDTH: "i2f WIDTH = 960" by code_simp
lemma i2f_HEIGHT: "i2f HEIGHT = 720" by code_simp
lemma image_aspect: "fdiv (i2f WIDTH) (i2f HEIGHT) = 11184811 / 8388608" by code_simp
lemma f2u_0: "f2u 0 = Some 0" by code_simp

lemma u2f_exact: "uint w \<le> 2 ^ 24 \<Longrightarrow> u2f w = real_of_int (uint w)"
  unfolding u2f_def by (rule rnd_int) simp

lemma f2u_div:
  assumes "0 \<le> a" and "0 < d" and "a div d < 2 ^ 32"
  shows "f2u (real_of_int a / real_of_int d) = Some (word_of_int (a div d))"
proof -
  have "0 \<le> real_of_int a / real_of_int d" using assms by simp
  moreover have "\<lfloor>real_of_int a / real_of_int d\<rfloor> = a div d" by (rule floor_divide_of_int_eq)
  moreover have "0 \<le> a div d" using assms by (simp add: pos_imp_zdiv_nonneg_iff)
  ultimately show ?thesis using assms(3) by (simp add: f2u_def)
qed

lemma aspect_compare_aux:
  assumes W: "0 < W" and H: "0 < H" "H \<le> 2 ^ 24"
  shows "rnd (real_of_int W / real_of_int H) < 11184811 / 8388608 \<longleftrightarrow> 3 * W < 4 * H"
proof
  assume "3 * W < 4 * H"
  then have "3 * W + 1 \<le> 4 * H" by simp
  then have "real_of_int (3 * W + 1) \<le> real_of_int (4 * H)" by (rule of_int_le_iff [THEN iffD2])
  then have "real_of_int W / real_of_int H \<le> 4 / 3 - 1 / (3 * real_of_int H)"
    using H(1) by (simp add: field_simps)
  also have "\<dots> \<le> 4 / 3 - 1 / (3 * 2 ^ 24)"
    using H by (simp add: field_simps)
  also have "\<dots> = 22369621 / 16777216" by simp
  finally have "rnd (real_of_int W / real_of_int H) \<le> 11184810 / 8388608"
    by (rule rnd_below_aspect)
  then show "rnd (real_of_int W / real_of_int H) < 11184811 / 8388608" by simp
next
  assume lt: "rnd (real_of_int W / real_of_int H) < 11184811 / 8388608"
  show "3 * W < 4 * H"
  proof (rule ccontr)
    assume "\<not> 3 * W < 4 * H"
    then have "4 * H \<le> 3 * W" by simp
    then have "real_of_int (4 * H) \<le> real_of_int (3 * W)" by (rule of_int_le_iff [THEN iffD2])
    then have "960 / 720 \<le> real_of_int W / real_of_int H"
      using H(1) by (simp add: field_simps)
    then have "rnd (960 / 720) \<le> rnd (real_of_int W / real_of_int H)" by (rule rnd_mono)
    moreover have "rnd (960 / 720) = 11184811 / 8388608"
      using image_aspect by (simp add: fdiv_def i2f_WIDTH i2f_HEIGHT)
    ultimately show False using lt by simp
  qed
qed

lemma aspect_compare:
  assumes "0 < W" and "0 < H" "H \<le> 2 ^ 24"
  shows "fdiv (real_of_int W) (real_of_int H) < fdiv (i2f WIDTH) (i2f HEIGHT)
     \<longleftrightarrow> HEIGHT * W < WIDTH * H"
  unfolding image_aspect unfolding fdiv_def
  using aspect_compare_aux [OF assms] by (simp add: WIDTH_def HEIGHT_def)

lemma f2u_floor:
  assumes "real_of_int n \<le> v" and "v < real_of_int n + 1" and "0 \<le> n" and "n < 2 ^ 32"
  shows "f2u v = Some (word_of_int n)"
proof -
  have "\<lfloor>v\<rfloor> = n" using assms(1,2) by (intro floor_unique) simp_all
  moreover have "0 \<le> v" using assms(1,3) by simp
  ultimately show ?thesis using assms(3,4) by (simp add: f2u_def)
qed

lemma narrow_height_quad:
  assumes "0 < m" and "m \<le> 372827"
  shows "f2u (fdiv (fmul 720 (real_of_int (4 * m))) 960) = Some (word_of_int (720 * (4 * m) div 960))"
proof -
  have "720 * real_of_int (4 * m) = real_of_int (45 * m) * 2 powi 6" by simp
  moreover have "rnd (real_of_int (45 * m) * 2 powi 6) = real_of_int (45 * m) * 2 powi 6"
    using assms by (intro rnd_exact) simp_all
  ultimately have p: "fmul 720 (real_of_int (4 * m)) = real_of_int (2880 * m)"
    unfolding fmul_def by simp
  have "rnd (real_of_int (3 * m)) = real_of_int (3 * m)" using assms by (intro rnd_int) simp
  then have d: "fdiv (fmul 720 (real_of_int (4 * m))) 960 = real_of_int (2880 * m) / real_of_int 960"
    unfolding p fdiv_def by simp
  have "f2u (real_of_int (2880 * m) / real_of_int 960) = Some (word_of_int (2880 * m div 960))"
    using assms by (intro f2u_div) simp_all
  then show ?thesis unfolding d by simp
qed

lemma narrow_height_last:
  "f2u (fdiv (fmul 720 (real_of_int 1491312)) 960) = Some (word_of_int (720 * 1491312 div 960))"
  by code_simp

lemma narrow_height_odd:
  assumes "0 < W" and "W < 1491316" and "\<not> 4 dvd W"
  shows "f2u (fdiv (fmul 720 (real_of_int W)) 960) = Some (word_of_int (720 * W div 960))"
proof -
  define n where "n = 720 * W div 960"
  define p where "p = fmul 720 (real_of_int W)"
  have n3: "n = 3 * W div 4" unfolding n_def by simp
  have "\<not> 4 dvd 3 * W" using assms(3) by presburger
  then have "4 * n + 1 \<le> 3 * W" and "3 * W \<le> 4 * n + 3" unfolding n3 by presburger+
  then have t: "real_of_int (4 * n + 1) \<le> real_of_int (3 * W)"
      "real_of_int (3 * W) \<le> real_of_int (4 * n + 3)"
    by (simp_all only: of_int_le_iff)
  have n0: "0 \<le> n" and nb: "n < 1118487" using assms unfolding n3 by simp_all
  have x1: "1 \<le> 720 * real_of_int W" using assms(1) by simp
  have Wr: "real_of_int W \<le> real_of_int 1491316"
    using assms(2) by (intro of_int_le_iff [THEN iffD2]) simp
  have "720 * real_of_int W - 720 * real_of_int W / 2 ^ 24 \<le> p"
    unfolding p_def fmul_def using x1 by (rule rnd_ge_rel)
  then have lo: "real_of_int (8 * n + 1) * 2 powi (- 3) \<le> p / 960"
    using t Wr by (simp add: power_int_minus)
  have "p \<le> 720 * real_of_int W + 720 * real_of_int W / 2 ^ 24"
    unfolding p_def fmul_def using x1 by (rule rnd_le_rel)
  then have hi: "p / 960 \<le> real_of_int (8 * n + 7) * 2 powi (- 3)"
    using t Wr by (simp add: power_int_minus)
  have "rnd (real_of_int (8 * n + 1) * 2 powi (- 3)) \<le> rnd (p / 960)" using lo by (rule rnd_mono)
  moreover have "rnd (real_of_int (8 * n + 1) * 2 powi (- 3)) = real_of_int (8 * n + 1) * 2 powi (- 3)"
    using n0 nb by (intro rnd_exact) simp_all
  ultimately have 1: "real_of_int n \<le> rnd (p / 960)" by (simp add: power_int_minus)
  have "rnd (p / 960) \<le> rnd (real_of_int (8 * n + 7) * 2 powi (- 3))" using hi by (rule rnd_mono)
  moreover have "rnd (real_of_int (8 * n + 7) * 2 powi (- 3)) = real_of_int (8 * n + 7) * 2 powi (- 3)"
    using n0 nb by (intro rnd_exact) simp_all
  ultimately have 2: "rnd (p / 960) < real_of_int n + 1" by (simp add: power_int_minus)
  have "f2u (rnd (p / 960)) = Some (word_of_int n)"
    using 1 2 n0 nb by (intro f2u_floor) simp_all
  then show ?thesis unfolding fdiv_def p_def n_def .
qed

lemma narrow_height:
  assumes "0 < W" and "W < 1491316"
  shows "f2u (fdiv (fmul 720 (real_of_int W)) 960) = Some (word_of_int (720 * W div 960))"
proof (cases "4 dvd W")
  case False
  then show ?thesis using assms by (intro narrow_height_odd)
next
  case True
  then obtain m where m: "W = 4 * m" ..
  show ?thesis
  proof (cases "m \<le> 372827")
    case True
    then show ?thesis using assms(1) unfolding m by (intro narrow_height_quad) simp_all
  next
    case False
    then have "W = 1491312" using assms(2) unfolding m by simp
    then show ?thesis using narrow_height_last by simp
  qed
qed

lemma centre_offset:
  assumes "0 \<le> k" and "k < 2 ^ 24"
  shows "f2u (fdiv (real_of_int k) 2) = Some (word_of_int (k div 2))"
proof -
  have "real_of_int k / 2 = real_of_int k * 2 powi (- 1)" by (simp add: power_int_minus)
  moreover have "rnd (real_of_int k * 2 powi (- 1)) = real_of_int k * 2 powi (- 1)"
    using assms by (intro rnd_exact) simp_all
  ultimately have d: "fdiv (real_of_int k) 2 = real_of_int k / real_of_int 2"
    unfolding fdiv_def by simp
  have "f2u (real_of_int k / real_of_int 2) = Some (word_of_int (k div 2))"
    using assms by (intro f2u_div) simp_all
  then show ?thesis unfolding d .
qed

lemma wide_width_last:
  "f2u (fdiv (fmul 960 (real_of_int 1118482)) 720) = Some (word_of_int (960 * 1118482 div 720))"
  "f2u (fdiv (fmul 960 (real_of_int 1118483)) 720) = Some (word_of_int (960 * 1118483 div 720))"
  "f2u (fdiv (fmul 960 (real_of_int 1118484)) 720) = Some (word_of_int (960 * 1118484 div 720))"
  "f2u (fdiv (fmul 960 (real_of_int 1118485)) 720) = Some (word_of_int (960 * 1118485 div 720))"
  "f2u (fdiv (fmul 960 (real_of_int 1118486)) 720) = Some (word_of_int (960 * 1118486 div 720))"
  by code_simp+

lemma wide_width_exact:
  assumes "0 < H" and "H \<le> 1118481"
  shows "f2u (fdiv (fmul 960 (real_of_int H)) 720) = Some (word_of_int (960 * H div 720))"
proof -
  define n where "n = 960 * H div 720"
  define q where "q = real_of_int (960 * H) / 720"
  have n4: "n = 4 * H div 3" unfolding n_def by simp
  have n0: "0 \<le> n" and nb: "n \<le> 1491308" using assms unfolding n4 by simp_all
  have "960 * real_of_int H = real_of_int (15 * H) * 2 powi 6" by simp
  moreover have "rnd (real_of_int (15 * H) * 2 powi 6) = real_of_int (15 * H) * 2 powi 6"
    using assms by (intro rnd_exact) simp_all
  ultimately have m: "fmul 960 (real_of_int H) = real_of_int (960 * H)"
    unfolding fmul_def by simp
  have "3 * n \<le> 4 * H" and "4 * H \<le> 3 * n + 2" unfolding n4 by simp_all
  then have "real_of_int (3 * n) \<le> real_of_int (4 * H)"
    and "real_of_int (4 * H) \<le> real_of_int (3 * n + 2)"
    by (simp_all only: of_int_le_iff)
  then have lo: "real_of_int n \<le> q" and hi: "q \<le> real_of_int (4 * n + 3) * 2 powi (- 2)"
    unfolding q_def by (simp_all add: power_int_minus)
  have "rnd (real_of_int n) \<le> rnd q" using lo by (rule rnd_mono)
  moreover have "rnd (real_of_int n) = real_of_int n" using n0 nb by (intro rnd_int) simp
  ultimately have 1: "real_of_int n \<le> rnd q" by simp
  have "rnd q \<le> rnd (real_of_int (4 * n + 3) * 2 powi (- 2))" using hi by (rule rnd_mono)
  moreover have "rnd (real_of_int (4 * n + 3) * 2 powi (- 2)) = real_of_int (4 * n + 3) * 2 powi (- 2)"
    using n0 nb by (intro rnd_exact) simp_all
  ultimately have 2: "rnd q < real_of_int n + 1" by (simp add: power_int_minus)
  have "f2u (rnd q) = Some (word_of_int n)"
    using 1 2 n0 nb by (intro f2u_floor) simp_all
  then show ?thesis unfolding fdiv_def m q_def n_def .
qed

lemma wide_width:
  assumes "0 < H" and "H < 1118487"
  shows "f2u (fdiv (fmul 960 (real_of_int H)) 720) = Some (word_of_int (960 * H div 720))"
proof (cases "H \<le> 1118481")
  case True
  then show ?thesis using assms(1) by (intro wide_width_exact)
next
  case False
  then have "H = 1118482 \<or> H = 1118483 \<or> H = 1118484 \<or> H = 1118485 \<or> H = 1118486"
    using assms(2) by arith
  then show ?thesis using wide_width_last by auto
qed

lemma uint_sub_word_of_int:
  fixes w :: u32
  assumes "0 \<le> n" and "n \<le> uint w"
  shows "uint (w - word_of_int n) = uint w - n"
proof -
  have "uint w < 2 ^ 32" using uint_bounded [of w] by simp
  then have "n < 2 ^ 32" using assms(2) by simp
  then have "uint (word_of_int n :: u32) = n"
    using assms(1) by (simp add: uint_word_of_int_eq take_bit_int_eq_self)
  then show ?thesis using assms(2) uint_sub_lem [of "word_of_int n" w] by simp
qed

lemma letterbox_narrow:
  assumes W: "0 < uint width" "uint width < 1491316"
    and H: "0 < uint height" "uint height < 1118487"
    and lt: "HEIGHT * uint width < WIDTH * uint height"
  shows "letterbox width height = Some
     \<lparr>rect_x = 0,
      rect_y = word_of_int ((uint height - HEIGHT * uint width div WIDTH) div 2),
      rect_w = width,
      rect_h = word_of_int (HEIGHT * uint width div WIDTH)\<rparr>"
proof -
  define n where "n = HEIGHT * uint width div WIDTH"
  have n: "0 \<le> n" "n \<le> uint height"
    using W lt unfolding n_def WIDTH_def HEIGHT_def by simp_all
  have uw: "u2f width = real_of_int (uint width)" using W by (intro u2f_exact) simp
  have uh: "u2f height = real_of_int (uint height)" using H by (intro u2f_exact) simp
  have c: "fdiv (u2f width) (u2f height) < fdiv (i2f WIDTH) (i2f HEIGHT)"
    unfolding uw uh using W H lt by (subst aspect_compare) simp_all
  have hh: "f2u (fdiv (fmul (i2f HEIGHT) (u2f width)) (i2f WIDTH)) = Some (word_of_int n)"
    unfolding uw i2f_WIDTH i2f_HEIGHT n_def unfolding WIDTH_def HEIGHT_def using W by (rule narrow_height)
  have "uint (height - word_of_int n) = uint height - n"
    using n by (rule uint_sub_word_of_int)
  moreover have "uint height - n < 2 ^ 24" using n H by simp
  ultimately have "u2f (height - word_of_int n) = real_of_int (uint height - n)"
    by (simp add: u2f_exact)
  moreover have "f2u (fdiv (real_of_int (uint height - n)) 2) = Some (word_of_int ((uint height - n) div 2))"
    using n H by (intro centre_offset) simp_all
  ultimately have yy: "f2u (fdiv (u2f (height - word_of_int n)) 2) = Some (word_of_int ((uint height - n) div 2))"
    by simp
  show ?thesis
    unfolding letterbox_def using c by (simp add: hh [unfolded n_def] yy [unfolded n_def] f2u_0)
qed

lemma letterbox_wide:
  assumes W: "0 < uint width" "uint width < 1491316"
    and H: "0 < uint height" "uint height < 1118487"
    and ge: "WIDTH * uint height \<le> HEIGHT * uint width"
  shows "letterbox width height = Some
     \<lparr>rect_x = word_of_int ((uint width - WIDTH * uint height div HEIGHT) div 2),
      rect_y = 0,
      rect_w = word_of_int (WIDTH * uint height div HEIGHT),
      rect_h = height\<rparr>"
proof -
  define n where "n = WIDTH * uint height div HEIGHT"
  have n: "0 \<le> n" "n \<le> uint width"
    using H ge unfolding n_def WIDTH_def HEIGHT_def by simp_all
  have uw: "u2f width = real_of_int (uint width)" using W by (intro u2f_exact) simp
  have uh: "u2f height = real_of_int (uint height)" using H by (intro u2f_exact) simp
  have c: "\<not> fdiv (u2f width) (u2f height) < fdiv (i2f WIDTH) (i2f HEIGHT)"
    unfolding uw uh using W H ge by (subst aspect_compare) simp_all
  have ww: "f2u (fdiv (fmul (i2f WIDTH) (u2f height)) (i2f HEIGHT)) = Some (word_of_int n)"
    unfolding uh i2f_WIDTH i2f_HEIGHT n_def unfolding WIDTH_def HEIGHT_def using H by (rule wide_width)
  have "uint (width - word_of_int n) = uint width - n"
    using n by (rule uint_sub_word_of_int)
  moreover have "uint width - n < 2 ^ 24" using n W by simp
  ultimately have "u2f (width - word_of_int n) = real_of_int (uint width - n)"
    by (simp add: u2f_exact)
  moreover have "f2u (fdiv (real_of_int (uint width - n)) 2) = Some (word_of_int ((uint width - n) div 2))"
    using n W by (intro centre_offset) simp_all
  ultimately have xx: "f2u (fdiv (u2f (width - word_of_int n)) 2) = Some (word_of_int ((uint width - n) div 2))"
    by simp
  show ?thesis
    unfolding letterbox_def using c by (simp add: ww [unfolded n_def] xx [unfolded n_def] f2u_0)
qed

lemma f2u_bounded:
  assumes "0 \<le> v" and "v \<le> real_of_int N" and "N < 2 ^ 32"
  shows "f2u v = Some (word_of_int \<lfloor>v\<rfloor>) \<and> 0 \<le> \<lfloor>v\<rfloor> \<and> \<lfloor>v\<rfloor> \<le> N
     \<and> uint (word_of_int \<lfloor>v\<rfloor> :: u32) = \<lfloor>v\<rfloor>"
proof -
  have 0: "0 \<le> \<lfloor>v\<rfloor>" using assms(1) by simp
  have "\<lfloor>v\<rfloor> \<le> \<lfloor>real_of_int N\<rfloor>" using assms(2) by (rule floor_mono)
  then have 1: "\<lfloor>v\<rfloor> \<le> N" by simp
  then have 2: "\<lfloor>v\<rfloor> < 2 ^ 32" using assms(3) by linarith
  have "uint (word_of_int \<lfloor>v\<rfloor> :: u32) = \<lfloor>v\<rfloor>"
    using 0 2 by (simp add: uint_word_of_int_eq take_bit_int_eq_self)
  moreover have "v < 4294967296" using 2 by simp
  ultimately show ?thesis using 0 1 assms(1) by (simp add: f2u_def)
qed

lemma narrow_height_le:
  assumes W: "0 < W" and H: "H < 2 ^ 23" and lt: "3 * W < 4 * H"
  shows "0 \<le> fdiv (fmul 720 (real_of_int W)) 960
     \<and> \<lfloor>fdiv (fmul 720 (real_of_int W)) 960\<rfloor> \<le> H"
proof -
  define p where "p = fmul 720 (real_of_int W)"
  have x1: "1 \<le> 720 * real_of_int W" using W by simp
  have p0: "0 \<le> p" unfolding p_def fmul_def using W by (intro rnd_nonneg) simp
  have "p \<le> 720 * real_of_int W + 720 * real_of_int W / 2 ^ 24"
    unfolding p_def fmul_def using x1 by (rule rnd_le_rel)
  then have "p / 960 \<le> 3 * real_of_int W / 4 + (3 * real_of_int W / 4) / 2 ^ 24" by simp
  moreover have "real_of_int H \<le> real_of_int (2 ^ 23)"
    using H by (intro of_int_le_iff [THEN iffD2]) simp
  moreover have "real_of_int (3 * W + 1) \<le> real_of_int (4 * H)"
    using lt by (intro of_int_le_iff [THEN iffD2]) simp
  ultimately have "p / 960 \<le> real_of_int (2 * H + 1) * 2 powi (- 1)"
    by (simp add: power_int_minus)
  then have "rnd (p / 960) \<le> rnd (real_of_int (2 * H + 1) * 2 powi (- 1))" by (rule rnd_mono)
  moreover have "rnd (real_of_int (2 * H + 1) * 2 powi (- 1)) = real_of_int (2 * H + 1) * 2 powi (- 1)"
    using W H lt by (intro rnd_exact) simp_all
  ultimately have "rnd (p / 960) < real_of_int (H + 1)" by (simp add: power_int_minus)
  then have "\<lfloor>rnd (p / 960)\<rfloor> < H + 1" by (simp only: floor_less_iff)
  moreover have "0 \<le> rnd (p / 960)" using p0 by (intro rnd_nonneg) simp
  ultimately show ?thesis by (simp add: fdiv_def p_def)
qed

lemma wide_width_le:
  assumes H: "0 < H" and W: "W < 2 ^ 23" and ge: "4 * H \<le> 3 * W"
  shows "0 \<le> fdiv (fmul 960 (real_of_int H)) 720
     \<and> \<lfloor>fdiv (fmul 960 (real_of_int H)) 720\<rfloor> \<le> W"
proof -
  define p where "p = fmul 960 (real_of_int H)"
  have x1: "1 \<le> 960 * real_of_int H" using H by simp
  have p0: "0 \<le> p" unfolding p_def fmul_def using H by (intro rnd_nonneg) simp
  have "p \<le> 960 * real_of_int H + 960 * real_of_int H / 2 ^ 24"
    unfolding p_def fmul_def using x1 by (rule rnd_le_rel)
  then have "p / 720 \<le> 4 * real_of_int H / 3 + (4 * real_of_int H / 3) / 2 ^ 24" by simp
  moreover have "real_of_int W \<le> real_of_int (2 ^ 23)"
    using W by (intro of_int_le_iff [THEN iffD2]) simp
  moreover have "real_of_int (4 * H) \<le> real_of_int (3 * W)"
    using ge by (intro of_int_le_iff [THEN iffD2])
  ultimately have "p / 720 \<le> real_of_int (2 * W + 1) * 2 powi (- 1)"
    by (simp add: power_int_minus)
  then have "rnd (p / 720) \<le> rnd (real_of_int (2 * W + 1) * 2 powi (- 1))" by (rule rnd_mono)
  moreover have "rnd (real_of_int (2 * W + 1) * 2 powi (- 1)) = real_of_int (2 * W + 1) * 2 powi (- 1)"
    using H W ge by (intro rnd_exact) simp_all
  ultimately have "rnd (p / 720) < real_of_int (W + 1)" by (simp add: power_int_minus)
  then have "\<lfloor>rnd (p / 720)\<rfloor> < W + 1" by (simp only: floor_less_iff)
  moreover have "0 \<le> rnd (p / 720)" using p0 by (intro rnd_nonneg) simp
  ultimately show ?thesis by (simp add: fdiv_def p_def)
qed

lemma uint_word_of_int_small:
  assumes "0 \<le> n" and "n < 2 ^ 32"
  shows "uint (word_of_int n :: u32) = n"
  using assms by (simp add: uint_word_of_int_eq take_bit_int_eq_self)

section \<open>Work-group counts\<close>

lemma div_round_up_cover:
  fixes d T :: int
  assumes "0 < T"
  defines "z \<equiv> (d + T - 1) div T"
  shows "(z - 1) * T < d" and "d \<le> z * T"
proof -
  have e: "z * T + (d + T - 1) mod T = d + T - 1"
    unfolding z_def by (rule div_mult_mod_eq)
  have "0 \<le> (d + T - 1) mod T" and "(d + T - 1) mod T < T"
    using assms(1) by simp_all
  then show "(z - 1) * T < d" and "d \<le> z * T"
    using e by (simp_all add: algebra_simps)
qed

lemma div_round_up_ceiling:
  fixes d T :: int
  assumes "0 < T"
  shows "(d + T - 1) div T = \<lceil>real_of_int d / real_of_int T\<rceil>"
proof -
  define z where "z = (d + T - 1) div T"
  have "(z - 1) * T < d" and "d \<le> z * T"
    unfolding z_def using assms by (rule div_round_up_cover)+
  then have "real_of_int ((z - 1) * T) < real_of_int d" and "real_of_int d \<le> real_of_int (z * T)"
    by (simp_all only: of_int_less_iff of_int_le_iff)
  then have "real_of_int z - 1 < real_of_int d / real_of_int T"
    and "real_of_int d / real_of_int T \<le> real_of_int z"
    using assms by (simp_all add: field_simps)
  then have "\<lceil>real_of_int d / real_of_int T\<rceil> = z" by (intro ceiling_unique)
  then show ?thesis by (simp add: z_def)
qed

lemma groups_ceiling:
  assumes "0 < T" and "0 < d" and "d + T < 2 ^ 31"
  shows "groups d T = Some \<lceil>real_of_int d / real_of_int T\<rceil>"
proof -
  define z where "z = (d + T - 1) div T"
  have sd: "(d + T - 1) sdiv T = z"
    using assms by (simp add: signed_divide_int_def sgn_if z_def)
  have "(z - 1) * T < d" and "d \<le> z * T"
    unfolding z_def using assms(1) by (rule div_round_up_cover)+
  have z0: "0 \<le> z" unfolding z_def using assms by (simp add: pos_imp_zdiv_nonneg_iff)
  have "z \<le> d + T - 1" unfolding z_def using assms by (intro int_div_le_self) simp_all
  then have "z < 2147483648" using assms(3) by simp
  then have "groups d T = Some z"
    using assms sd z0 by (simp add: groups_def cint_def)
  then show ?thesis using div_round_up_ceiling [OF assms(1), of d] by (simp add: z_def)
qed

section \<open>The orbit camera\<close>

lemma PollEvents_running:
  "QUIT \<notin> set evs \<Longrightarrow> snd (PollEvents evs (s, r)) = r"
proof (induction evs arbitrary: s r)
  case Nil
  then show ?case by simp
next
  case (Cons e evs)
  then show ?case by (cases e) simp_all
qed

lemma kClamp_value: "kClamp = 13092909 / 8388608" by code_simp

lemma cos_kClamp_pos: "0 < cos (13092909 / 8388608 :: real)"
proof -
  define x :: real where "x = 13092909 / 8388608"
  define P where "P = 1 - x ^ 2 / 2 + x ^ 4 / 24 - x ^ 6 / 720"
  define Q where "Q = x ^ 8 / fact 8"
  have "0 < x" by (simp add: x_def)
  then obtain t where "cos x = (\<Sum>m<8. cos_coeff m * x ^ m) + cos (t + 1 / 2 * real 8 * pi) / fact 8 * x ^ 8"
    using Maclaurin_cos_expansion2 [of x 8] by auto
  moreover define c where "c = cos (t + 1 / 2 * real 8 * pi)"
  moreover have "(\<Sum>m<8. cos_coeff m * x ^ m) = P"
    unfolding P_def by (simp add: eval_nat_numeral cos_coeff_Suc sin_coeff_Suc)
  ultimately have e: "cos x = P + c * Q" by (simp add: Q_def)
  have "- 1 \<le> c" unfolding c_def by (rule cos_ge_minus_one)
  moreover have "0 \<le> Q" using \<open>0 < x\<close> by (simp add: Q_def)
  ultimately have "- 1 * Q \<le> c * Q" by (rule mult_right_mono)
  moreover have "0 < P - Q"
    unfolding P_def Q_def x_def by (simp add: fact_numeral power_divide)
  ultimately have "0 < cos x" unfolding e by linarith
  then show ?thesis by (simp add: x_def)
qed

lemma kClamp_less_half_pi: "kClamp < pi / 2"
proof (rule ccontr)
  assume "\<not> kClamp < pi / 2"
  then have "pi / 2 \<le> 13092909 / 8388608" by (simp add: kClamp_value)
  moreover have "(13092909 / 8388608 :: real) \<le> pi" using pi_ge_two by simp
  ultimately have "cos (13092909 / 8388608) \<le> cos (pi / 2)"
    by (intro cos_monotone_0_pi_le) simp_all
  then show False using cos_kClamp_pos by simp
qed

lemma kClamp_pos: "0 < kClamp"
  by (simp add: kClamp_value)

lemma std_clamp_range: "lo \<le> hi \<Longrightarrow> lo \<le> std_clamp v lo hi \<and> std_clamp v lo hi \<le> hi"
  by (simp add: std_clamp_def)

lemma handle_event_pitch:
  assumes "- kClamp \<le> pitch s \<and> pitch s \<le> kClamp"
  shows "- kClamp \<le> pitch (fst (handle_event e (s, r))) \<and> pitch (fst (handle_event e (s, r))) \<le> kClamp"
  using assms kClamp_pos std_clamp_range [of "- kClamp" kClamp] by (cases e) simp_all

lemma PollEvents_pitch:
  assumes "- kClamp \<le> pitch s \<and> pitch s \<le> kClamp"
  shows "- kClamp \<le> pitch (fst (PollEvents evs (s, r))) \<and> pitch (fst (PollEvents evs (s, r))) \<le> kClamp"
  using assms
proof (induction evs arbitrary: s r)
  case Nil
  then show ?case by simp
next
  case (Cons e evs)
  obtain s1 r1 where h: "handle_event e (s, r) = (s1, r1)" by (cases "handle_event e (s, r)")
  then have "- kClamp \<le> pitch s1 \<and> pitch s1 \<le> kClamp"
    using handle_event_pitch [OF Cons.prems, of e r] by simp
  then show ?case using Cons.IH [of s1 r1] by (simp add: h)
qed

lemma big_drag: "fadd 0 (fmul 1000 kPan) = 2" by code_simp

lemma rnd_one: "rnd 1 = 1"
  using rnd_int [of 1] by simp

lemma handle_event_distance:
  assumes "1 \<le> distance s"
  shows "1 \<le> distance (fst (handle_event e (s, r)))"
  using assms by (cases e) (simp_all add: std_max_def)

lemma PollEvents_distance:
  assumes "1 \<le> distance s"
  shows "1 \<le> distance (fst (PollEvents evs (s, r)))"
  using assms
proof (induction evs arbitrary: s r)
  case Nil
  then show ?case by simp
next
  case (Cons e evs)
  obtain s1 r1 where h: "handle_event e (s, r) = (s1, r1)" by (cases "handle_event e (s, r)")
  then have "1 \<le> distance s1" using handle_event_distance [OF Cons.prems, of e r] by simp
  then show ?case using Cons.IH [of s1 r1] by (simp add: h)
qed

lemma scroll_in_positive:
  assumes "1 \<le> d" and "fsub d p < 1"
  shows "0 < p"
proof (rule ccontr)
  assume "\<not> 0 < p"
  then have "1 \<le> d - p" using assms(1) by simp
  then have "rnd 1 \<le> rnd (d - p)" by (rule rnd_mono)
  then show False using assms(2) by (simp add: rnd_one fsub_def)
qed

lemma floor_is_fixed:
  assumes "0 < p"
  shows "std_max 1 (fsub 1 p) = 1"
proof -
  have "rnd (1 - p) \<le> rnd 1" using assms by (intro rnd_mono) simp
  then show ?thesis by (simp add: rnd_one fsub_def std_max_def)
qed

lemma wheel_repeat:
  assumes "distance s = 1" and "0 < fmul y kZoom"
  shows "distance (fst (PollEvents (replicate n (MOUSE_WHEEL y)) (s, r))) = 1"
  using assms(1)
proof (induction n arbitrary: s)
  case 0
  then show ?case by simp
next
  case (Suc n)
  have "distance (s\<lparr>distance := std_max 1 (fsub (distance s) (fmul y kZoom))\<rparr>) = 1"
    using Suc.prems floor_is_fixed [OF assms(2)] by simp
  then show ?case using Suc.IH by simp
qed

lemma distance_init: "rnd 100000000000 = 99999997952" by code_simp

lemma scroll_past_origin: "fsub (rnd 100000000000) (fmul 5 kZoom) = - 25000001536" by code_simp

section \<open>The camera basis\<close>

text \<open>
  Error analysis of \<^const>\<open>glm_normalize\<close> and \<^const>\<open>glm_cross\<close>. One rounding moves a value \<open>x\<close> by
  at most \<open>\<bar>x\<bar> / 2 ^ 24 + 1 / 2 ^ 150\<close>; a normalised vector is within \<open>1 / 2 ^ 20\<close>, component
  by component, of the exact unit vector, provided the squared length of its argument lies
  between \<open>1 / 2 ^ 24\<close> and 4.
\<close>

lemma rnd_abs_err: "\<bar>rnd x - x\<bar> \<le> \<bar>x\<bar> / 2 ^ 24 + 1 / 2 ^ 150"
proof (cases "- 149 < fexp x")
  case True
  then have "\<bar>rnd x - x\<bar> \<le> \<bar>x\<bar> / 2 ^ 24" by (rule rnd_err)
  then show ?thesis by simp
next
  case False
  then have e: "fexp x = - 149" using fexp_ge [of x] by simp
  define v :: real where "v = 2 powi (- 149)"
  define q where "q = x / v"
  have v: "0 < v" by (simp add: v_def)
  have x: "x = q * v" using v by (simp add: q_def)
  have r: "rnd x = real_of_int (rne q) * v" by (simp add: rnd_def q_def v_def e)
  have "rnd x - x = (real_of_int (rne q) - q) * v"
    unfolding r by (subst x) (simp add: left_diff_distrib)
  then have "\<bar>rnd x - x\<bar> = \<bar>real_of_int (rne q) - q\<bar> * v"
    using v by (simp add: abs_mult)
  also have "\<dots> \<le> 1 / 2 * v"
    using v rne_err [of q] by (intro mult_right_mono) simp_all
  also have "\<dots> = 1 / 2 ^ 150" by (simp add: v_def power_int_minus)
  finally show ?thesis by (simp add: add_increasing)
qed

lemma rnd_zero: "rnd 0 = 0"
  using rnd_int [of 0] by simp

lemma rnd_idem: "rnd (rnd x) = rnd x"
proof -
  define e where "e = fexp x"
  define m where "m = rne (x / 2 powi e)"
  have r: "rnd x = real_of_int m * 2 powi e" by (simp add: rnd_def m_def e_def)
  have "\<bar>x\<bar> < 2 powi (e + 24)" unfolding e_def by (rule fexp_upper)
  then have "\<bar>x\<bar> < 16777216 * 2 powi e" by (simp add: power_int_add)
  then have "x \<le> 16777216 * 2 powi e" and "- 16777216 * 2 powi e \<le> x" by linarith+
  then have q: "x / 2 powi e \<le> real_of_int (2 ^ 24)" "real_of_int (- (2 ^ 24)) \<le> x / 2 powi e"
    by (simp_all add: pos_divide_le_eq pos_le_divide_eq)
  have "rne (x / 2 powi e) \<le> rne (real_of_int (2 ^ 24))" using q(1) by (rule rne_mono)
  moreover have "rne (real_of_int (- (2 ^ 24))) \<le> rne (x / 2 powi e)" using q(2) by (rule rne_mono)
  ultimately have mb: "m \<le> 2 ^ 24" "- (2 ^ 24) \<le> m"
    unfolding m_def by (simp_all only: rne_of_int)
  have e: "- 149 \<le> e" unfolding e_def by (rule fexp_ge)
  consider "\<bar>m\<bar> < 2 ^ 24" | "m = 2 ^ 24" | "m = - (2 ^ 24)" using mb by linarith
  then show ?thesis
  proof cases
    case 1
    then show ?thesis unfolding r using e by (rule rnd_exact)
  next
    case 2
    have "rnd (real_of_int (2 ^ 23) * 2 powi (e + 1)) = real_of_int (2 ^ 23) * 2 powi (e + 1)"
      using e by (intro rnd_exact) simp_all
    moreover have "real_of_int m * 2 powi e = real_of_int (2 ^ 23) * 2 powi (e + 1)"
      unfolding 2 by (simp add: power_int_add)
    ultimately show ?thesis unfolding r by simp
  next
    case 3
    have "rnd (real_of_int (- (2 ^ 23)) * 2 powi (e + 1)) = real_of_int (- (2 ^ 23)) * 2 powi (e + 1)"
      using e by (intro rnd_exact) simp_all
    moreover have "real_of_int m * 2 powi e = real_of_int (- (2 ^ 23)) * 2 powi (e + 1)"
      unfolding 3 by (simp add: power_int_add)
    ultimately show ?thesis unfolding r by simp
  qed
qed

lemma rnd_unit_bound: "\<bar>x\<bar> \<le> 1 \<Longrightarrow> \<bar>rnd x\<bar> \<le> 1"
proof -
  assume "\<bar>x\<bar> \<le> 1"
  then have "rnd (- 1) \<le> rnd x" and "rnd x \<le> rnd 1" by (intro rnd_mono; linarith)+
  then show ?thesis using rnd_one by (simp add: rnd_minus abs_le_iff)
qed

lemma rnd_near:
  assumes "\<bar>x\<bar> \<le> b"
  shows "\<bar>rnd x - x\<bar> \<le> b / 2 ^ 24 + 1 / 2 ^ 150"
proof -
  have "\<bar>x\<bar> / 2 ^ 24 \<le> b / 2 ^ 24" using assms by (intro divide_right_mono) simp_all
  then show ?thesis using rnd_abs_err [of x] by linarith
qed

lemma rnd_rel_nonneg:
  assumes "0 \<le> x"
  shows "x * (16777215 / 16777216) - 1 / 2 ^ 150 \<le> rnd x"
    and "rnd x \<le> x * (16777217 / 16777216) + 1 / 2 ^ 150"
proof -
  have "\<bar>rnd x - x\<bar> \<le> x / 16777216 + 1 / 2 ^ 150" using rnd_abs_err [of x] assms by simp
  then have "x - (x / 16777216 + 1 / 2 ^ 150) \<le> rnd x" and "rnd x \<le> x + (x / 16777216 + 1 / 2 ^ 150)"
    by argo+
  then show "x * (16777215 / 16777216) - 1 / 2 ^ 150 \<le> rnd x"
    and "rnd x \<le> x * (16777217 / 16777216) + 1 / 2 ^ 150" by simp_all
qed

lemma rnd_abs: "\<bar>rnd x\<bar> = rnd \<bar>x\<bar>"
proof (cases "0 \<le> x")
  case True
  then show ?thesis using rnd_nonneg [of x] by simp
next
  case False
  then have "0 \<le> rnd (- x)" by (intro rnd_nonneg) simp
  then show ?thesis using False by (simp add: rnd_minus)
qed

lemma glm_dot_self:
  assumes lo: "1 / 2 ^ 24 \<le> vdot v v"
  shows "vdot v v * (16777210 / 16777216) \<le> glm_dot v v"
    and "glm_dot v v \<le> vdot v v * (16777222 / 16777216)"
proof -
  define X where "X = vec_x v * vec_x v"
  define Y where "Y = vec_y v * vec_y v"
  define Z where "Z = vec_z v * vec_z v"
  define p1 where "p1 = rnd X"
  define p2 where "p2 = rnd Y"
  define p3 where "p3 = rnd Z"
  define s1 where "s1 = rnd (p1 + p2)"
  define D where "D = rnd (s1 + p3)"
  have n: "0 \<le> X" "0 \<le> Y" "0 \<le> Z" by (simp_all add: X_def Y_def Z_def)
  have q: "0 \<le> p1" "0 \<le> p2" "0 \<le> p3" unfolding p1_def p2_def p3_def using n by (simp_all add: rnd_nonneg)
  then have s: "0 \<le> s1" unfolding s1_def by (intro rnd_nonneg) simp
  have N: "vdot v v = X + Y + Z" by (simp add: vdot_def X_def Y_def Z_def)
  have d: "glm_dot v v = D"
    by (simp add: glm_dot_def fadd_def fmul_def D_def s1_def p1_def p2_def p3_def X_def Y_def Z_def)
  note b = rnd_rel_nonneg [OF n(1), folded p1_def] rnd_rel_nonneg [OF n(2), folded p2_def]
    rnd_rel_nonneg [OF n(3), folded p3_def]
  have "0 \<le> p1 + p2" using q by simp
  note b1 = rnd_rel_nonneg [OF this, folded s1_def]
  have "0 \<le> s1 + p3" using q s by simp
  note b2 = rnd_rel_nonneg [OF this, folded D_def]
  have l: "1 / 16777216 \<le> X + Y + Z" using lo unfolding N by simp
  define h :: real where "h = 1 / 2 ^ 150"
  have h: "0 \<le> h" "h \<le> 1 / 16777216 / 1099511627776" by (simp_all add: h_def)
  define A where "A = X + Y + Z"
  have 1: "(X + Y) * (16777215 / 16777216) - 2 * h \<le> p1 + p2"
    "p1 + p2 \<le> (X + Y) * (16777217 / 16777216) + 2 * h"
    using b unfolding h_def [symmetric] by argo+
  have 2: "(X + Y) * (16777214 / 16777216) - 3 * h \<le> s1"
    "s1 \<le> (X + Y) * (16777219 / 16777216) + 4 * h"
    using 1 b1 h(1) n unfolding h_def [symmetric] by argo+
  have 3: "A * (16777214 / 16777216) - 4 * h \<le> s1 + p3"
    "s1 + p3 \<le> A * (16777219 / 16777216) + 5 * h"
    using 2 b(5,6) h(1) n unfolding h_def [symmetric] A_def by argo+
  have "0 \<le> A" using n by (simp add: A_def)
  then have 4: "A * (16777212 / 16777216) - 5 * h \<le> D"
    "D \<le> A * (16777221 / 16777216) + 7 * h"
    using 3 b2 h(1) unfolding h_def [symmetric] by argo+
  have l': "1 / 16777216 \<le> A" using l by (simp add: A_def)
  have 5: "h \<le> A / 1099511627776" using l' h(2) by argo
  show "vdot v v * (16777210 / 16777216) \<le> glm_dot v v"
    unfolding N d A_def [symmetric] using 4(1) 5 l' by argo
  show "glm_dot v v \<le> vdot v v * (16777222 / 16777216)"
    unfolding N d A_def [symmetric] using 4(2) 5 l' by argo
qed

lemma glm_inversesqrt_dot:
  assumes lo: "1 / 2 ^ 24 \<le> vdot v v" and hi: "vdot v v \<le> 4"
  shows "16777209 / 16777216 / sqrt (vdot v v) \<le> glm_inversesqrt (glm_dot v v)"
    and "glm_inversesqrt (glm_dot v v) \<le> 16777227 / 16777216 / sqrt (vdot v v)"
proof -
  define N where "N = vdot v v"
  define t where "t = sqrt N"
  define D where "D = glm_dot v v"
  define Q where "Q = rnd (sqrt D)"
  define w where "w = 1 / t"
  define R where "R = rnd (1 / Q)"
  define h :: real where "h = 1 / 2 ^ 150"
  define c :: real where "c = 16777210 / 16777216"
  define c' :: real where "c' = 16777219 / 16777216"
  have N: "1 / 16777216 \<le> N" "N \<le> 4" "0 \<le> N" using lo hi by (simp_all add: N_def)
  have tt: "t * t = N" using N(3) by (simp add: t_def)
  have "(1 / 4096)\<^sup>2 \<le> N" using N(1) by (simp add: power2_eq_square)
  then have t1: "1 / 4096 \<le> t" unfolding t_def by (rule real_le_rsqrt)
  have "N \<le> 2\<^sup>2" using N(2) by simp
  then have t2: "t \<le> 2" unfolding t_def by (intro real_le_lsqrt) simp_all
  have t0: "0 < t" using t1 by simp
  have D: "N * (16777210 / 16777216) \<le> D" "D \<le> N * (16777222 / 16777216)"
    unfolding D_def N_def using lo by (rule glm_dot_self)+
  have "(t * c)\<^sup>2 = N * (c * c)" by (simp add: power2_eq_square tt [symmetric])
  also have "\<dots> \<le> N * (16777210 / 16777216)"
    using N(3) by (intro mult_left_mono) (simp_all add: c_def)
  finally have "(t * c)\<^sup>2 \<le> D" using D(1) by simp
  then have s1: "t * c \<le> sqrt D" by (rule real_le_rsqrt)
  have "N * (16777222 / 16777216) \<le> N * (c' * c')"
    using N(3) by (intro mult_left_mono) (simp_all add: c'_def)
  also have "\<dots> = (t * c')\<^sup>2" by (simp add: power2_eq_square tt [symmetric])
  finally have "D \<le> (t * c')\<^sup>2" using D(2) by simp
  moreover have "0 \<le> t * c'" using t0 by (simp add: c'_def)
  ultimately have s2: "sqrt D \<le> t * c'" by (intro real_le_lsqrt)
  have h: "0 \<le> h" "h \<le> 1 / 4096 / 1099511627776" by (simp_all add: h_def)
  have "0 \<le> D" using D(1) N(3) by argo
  then have "0 \<le> sqrt D" by simp
  note b = rnd_rel_nonneg [OF this, folded Q_def h_def]
  have Q1: "t * (16777208 / 16777216) \<le> Q"
    using b(1) s1 t1 h unfolding c_def by argo
  have Q2: "Q \<le> t * (16777221 / 16777216)"
    using b(2) s2 t1 h unfolding c'_def by argo
  have Q0: "0 < Q" using Q1 t0 by argo
  have "1 / Q \<le> 1 / (t * (16777208 / 16777216))"
    using Q1 t0 by (intro divide_left_mono) simp_all
  then have i2: "1 / Q \<le> w * (16777216 / 16777208)" by (simp add: w_def)
  have "1 / (t * (16777221 / 16777216)) \<le> 1 / Q"
    using Q2 Q0 by (intro divide_left_mono) simp_all
  then have i1: "w * (16777216 / 16777221) \<le> 1 / Q" by (simp add: w_def)
  have "0 \<le> 1 / Q" using Q0 by simp
  note r = rnd_rel_nonneg [OF this, folded R_def h_def]
  have "1 / 2 \<le> 1 / t" using t2 t0 by (simp add: field_simps)
  then have w: "1 / 2 \<le> w" by (simp add: w_def)
  have "w * (16777209 / 16777216) \<le> R" using r(1) i1 w h by argo
  moreover have "R \<le> w * (16777227 / 16777216)" using r(2) i2 w h by argo
  ultimately show "16777209 / 16777216 / sqrt (vdot v v) \<le> glm_inversesqrt (glm_dot v v)"
    and "glm_inversesqrt (glm_dot v v) \<le> 16777227 / 16777216 / sqrt (vdot v v)"
    by (simp_all add: glm_inversesqrt_def fdiv_def sqrtf_def R_def Q_def D_def w_def t_def N_def)
qed

lemma scaled_component:
  assumes lo: "1 / 2 ^ 24 \<le> vdot v v" and hi: "vdot v v \<le> 4" and a: "a * a \<le> vdot v v"
  shows "\<bar>fmul a (glm_inversesqrt (glm_dot v v)) - a / sqrt (vdot v v)\<bar> \<le> 1 / 1048576"
proof -
  define t where "t = sqrt (vdot v v)"
  define R where "R = glm_inversesqrt (glm_dot v v)"
  define g where "g = a / t"
  define h :: real where "h = 1 / 2 ^ 150"
  have "0 \<le> vdot v v" using lo by (simp add: order_trans [rotated])
  have "(1 / 4096)\<^sup>2 \<le> vdot v v" using lo by (simp add: power2_eq_square)
  then have "1 / 4096 \<le> t" unfolding t_def by (rule real_le_rsqrt)
  then have t0: "0 < t" by simp
  have "sqrt (a * a) \<le> t" unfolding t_def using a by (rule real_sqrt_le_mono)
  then have at: "\<bar>a\<bar> \<le> t" by simp
  then have g: "\<bar>g\<bar> \<le> 1" using t0 by (simp add: g_def)
  have R: "16777209 / 16777216 / t \<le> R" "R \<le> 16777227 / 16777216 / t"
    unfolding R_def t_def using lo hi by (rule glm_inversesqrt_dot)+
  define rho where "rho = R * t"
  have "16777209 / 16777216 \<le> rho" "rho \<le> 16777227 / 16777216"
    using R t0 by (simp_all add: rho_def field_simps)
  then have rho: "\<bar>rho - 1\<bar> \<le> 11 / 16777216" by argo
  have e: "a * R = g * rho" using t0 by (simp add: g_def rho_def)
  have "\<bar>g * rho - g\<bar> = \<bar>g\<bar> * \<bar>rho - 1\<bar>" by (simp add: abs_mult [symmetric] algebra_simps)
  also have "\<dots> \<le> 1 * (11 / 16777216)" using g rho by (intro mult_mono) simp_all
  finally have d: "\<bar>a * R - g\<bar> \<le> 11 / 16777216" by (simp add: e)
  then have "\<bar>a * R\<bar> \<le> 2" using g by linarith
  then have "\<bar>rnd (a * R) - a * R\<bar> \<le> 2 / 2 ^ 24 + 1 / 2 ^ 150" by (rule rnd_near)
  then have "\<bar>rnd (a * R) - a * R\<bar> \<le> 3 / 16777216" by simp
  then have "\<bar>rnd (a * R) - g\<bar> \<le> 1 / 1048576" using d by linarith
  then show ?thesis by (simp add: fmul_def R_def g_def t_def)
qed

lemma glm_normalize_near:
  assumes lo: "1 / 2 ^ 24 \<le> vdot v v" and hi: "vdot v v \<le> 4"
  shows "\<bar>vec_x (glm_normalize v) - vec_x v / sqrt (vdot v v)\<bar> \<le> 1 / 1048576"
    and "\<bar>vec_y (glm_normalize v) - vec_y v / sqrt (vdot v v)\<bar> \<le> 1 / 1048576"
    and "\<bar>vec_z (glm_normalize v) - vec_z v / sqrt (vdot v v)\<bar> \<le> 1 / 1048576"
proof -
  have "vec_x v * vec_x v \<le> vdot v v" "vec_y v * vec_y v \<le> vdot v v" "vec_z v * vec_z v \<le> vdot v v"
    by (simp_all add: vdot_def)
  from this [THEN scaled_component [OF lo hi]]
  show "\<bar>vec_x (glm_normalize v) - vec_x v / sqrt (vdot v v)\<bar> \<le> 1 / 1048576"
    and "\<bar>vec_y (glm_normalize v) - vec_y v / sqrt (vdot v v)\<bar> \<le> 1 / 1048576"
    and "\<bar>vec_z (glm_normalize v) - vec_z v / sqrt (vdot v v)\<bar> \<le> 1 / 1048576"
    by (simp_all add: glm_normalize_def vec_scale_def)
qed

lemma prod_near:
  fixes p q q' :: real
  assumes "\<bar>p\<bar> \<le> B" and "\<bar>q - q'\<bar> \<le> e"
  shows "\<bar>p * q - p * q'\<bar> \<le> B * e"
proof -
  have "\<bar>p * q - p * q'\<bar> = \<bar>p\<bar> * \<bar>q - q'\<bar>" by (simp add: abs_mult [symmetric] algebra_simps)
  also have "\<dots> \<le> B * e" using assms by (intro mult_mono) simp_all
  finally show ?thesis .
qed

lemma vdot_commute: "vdot a b = vdot b a"
  by (simp add: vdot_def mult.commute)

lemma vdot_near:
  assumes p: "vnear B p vec0" and n: "vnear e n w"
  shows "\<bar>vdot p n - vdot p w\<bar> \<le> 3 * (B * e)"
proof -
  have "\<bar>vec_x p * vec_x n - vec_x p * vec_x w\<bar> \<le> B * e"
    using p n by (intro prod_near) (simp_all add: vnear_def vec0_def)
  moreover have "\<bar>vec_y p * vec_y n - vec_y p * vec_y w\<bar> \<le> B * e"
    using p n by (intro prod_near) (simp_all add: vnear_def vec0_def)
  moreover have "\<bar>vec_z p * vec_z n - vec_z p * vec_z w\<bar> \<le> B * e"
    using p n by (intro prod_near) (simp_all add: vnear_def vec0_def)
  ultimately show ?thesis unfolding vdot_def by linarith
qed

lemma vdot_vunit: "vdot p (vunit v) = vdot p v / vnorm v"
  by (simp add: vdot_def vunit_def add_divide_distrib)

lemma vunit_unit:
  assumes "0 < vdot v v"
  shows "vdot (vunit v) (vunit v) = 1"
proof -
  have "vdot (vunit v) (vunit v) = vdot v v / (vnorm v * vnorm v)"
    by (simp add: vdot_def vunit_def add_divide_distrib)
  also have "vnorm v * vnorm v = vdot v v" using assms by (simp add: vnorm_def)
  finally show ?thesis using assms by simp
qed

lemma vunit_bound:
  assumes "0 < vdot v v"
  shows "vnear 1 (vunit v) vec0"
proof -
  have u: "vdot (vunit v) (vunit v) = 1" using assms by (rule vunit_unit)
  have b: "\<bar>a\<bar> \<le> 1" if "a * a \<le> 1" for a :: real
  proof -
    have "sqrt (a * a) \<le> sqrt 1" using that by (rule real_sqrt_le_mono)
    then show ?thesis by simp
  qed
  have "vec_x (vunit v) * vec_x (vunit v) \<le> 1" "vec_y (vunit v) * vec_y (vunit v) \<le> 1"
    "vec_z (vunit v) * vec_z (vunit v) \<le> 1"
    unfolding u [symmetric] by (simp_all add: vdot_def)
  then show ?thesis by (simp add: vnear_def vec0_def b)
qed

lemma lagrange:
  "vdot (vcross a b) (vcross a b) = vdot a a * vdot b b - vdot a b * vdot a b"
  by (simp add: vdot_def vcross_def algebra_simps)

lemma vcross_orth: "vdot a (vcross a b) = 0" "vdot b (vcross a b) = 0"
  by (simp_all add: vdot_def vcross_def algebra_simps)

lemma sqrt_near_one:
  assumes "0 \<le> s"
  shows "\<bar>sqrt s - 1\<bar> \<le> \<bar>s - 1\<bar>"
proof -
  have "s - 1 = (sqrt s - 1) * (sqrt s + 1)" using assms by (simp add: algebra_simps)
  then have "\<bar>s - 1\<bar> = \<bar>sqrt s - 1\<bar> * (sqrt s + 1)" using assms by (simp add: abs_mult)
  moreover have "\<bar>sqrt s - 1\<bar> * 1 \<le> \<bar>sqrt s - 1\<bar> * (sqrt s + 1)"
    using assms by (intro mult_left_mono) simp_all
  ultimately show ?thesis by simp
qed

lemma glm_normalize_vnear:
  assumes "1 / 2 ^ 24 \<le> vdot v v" and "vdot v v \<le> 4"
  shows "vnear (1 / 1048576) (glm_normalize v) (vunit v)"
  using glm_normalize_near [OF assms] by (simp add: vnear_def vunit_def vnorm_def)

lemma glm_normalize_bound:
  assumes lo: "1 / 2 ^ 24 \<le> vdot v v" and hi: "vdot v v \<le> 4"
  shows "vnear (1048577 / 1048576) (glm_normalize v) vec0"
proof -
  have "0 < vdot v v" using lo by (simp add: less_le_trans [rotated])
  then have "vnear 1 (vunit v) vec0" by (rule vunit_bound)
  then show ?thesis using glm_normalize_vnear [OF lo hi] unfolding vnear_def vec0_def
    by (simp add: abs_le_iff) argo
qed

lemma glm_normalize_unit:
  assumes lo: "1 / 2 ^ 24 \<le> vdot v v" and hi: "vdot v v \<le> 4"
  shows "\<bar>vdot (glm_normalize v) (glm_normalize v) - 1\<bar> \<le> 7 / 1048576"
proof -
  define n where "n = glm_normalize v"
  define w where "w = vunit v"
  have "0 < vdot v v" using lo by (simp add: less_le_trans [rotated])
  then have w: "vnear 1 w vec0" and u: "vdot w w = 1"
    unfolding w_def by (rule vunit_bound, rule vunit_unit)
  have nw: "vnear (1 / 1048576) n w" unfolding n_def w_def using lo hi by (rule glm_normalize_vnear)
  have n: "vnear (1048577 / 1048576) n vec0" unfolding n_def using lo hi by (rule glm_normalize_bound)
  have "\<bar>vdot n n - vdot n w\<bar> \<le> 3 * (1048577 / 1048576 * (1 / 1048576))"
    using n nw by (rule vdot_near)
  moreover have "\<bar>vdot w n - vdot w w\<bar> \<le> 3 * (1 * (1 / 1048576))"
    using w nw by (rule vdot_near)
  ultimately show ?thesis unfolding n_def [symmetric] u vdot_commute [of w n] by argo
qed

lemma fcross_term:
  assumes "\<bar>a\<bar> \<le> 1048577 / 1048576" and "\<bar>b\<bar> \<le> 1048577 / 1048576"
    and "\<bar>c\<bar> \<le> 1048577 / 1048576" and "\<bar>d\<bar> \<le> 1048577 / 1048576"
  shows "\<bar>fsub (fmul a b) (fmul c d) - (a * b - c * d)\<bar> \<le> 5 / 16777216"
proof -
  define h :: real where "h = 1 / 2 ^ 150"
  have h: "0 \<le> h" "h \<le> 1 / 1099511627776" by (simp_all add: h_def)
  have m: "\<bar>x * y\<bar> \<le> 1025 / 1024"
    if "\<bar>x\<bar> \<le> 1048577 / 1048576" and "\<bar>y\<bar> \<le> 1048577 / 1048576" for x y :: real
  proof -
    have "\<bar>x\<bar> * \<bar>y\<bar> \<le> 1048577 / 1048576 * (1048577 / 1048576)"
      using that by (intro mult_mono) simp_all
    then show ?thesis by (simp add: abs_mult)
  qed
  have ab: "\<bar>a * b\<bar> \<le> 1025 / 1024" and cd: "\<bar>c * d\<bar> \<le> 1025 / 1024"
    using assms by (simp_all only: m)
  have 1: "\<bar>rnd (a * b) - a * b\<bar> \<le> 1025 / 1024 / 2 ^ 24 + h"
    unfolding h_def using ab by (rule rnd_near)
  have 2: "\<bar>rnd (c * d) - c * d\<bar> \<le> 1025 / 1024 / 2 ^ 24 + h"
    unfolding h_def using cd by (rule rnd_near)
  have "\<bar>rnd (a * b) - rnd (c * d)\<bar> \<le> 33 / 16" using 1 2 ab cd h by (simp add: abs_le_iff) argo
  then have 3: "\<bar>rnd (rnd (a * b) - rnd (c * d)) - (rnd (a * b) - rnd (c * d))\<bar> \<le> 33 / 16 / 2 ^ 24 + h"
    unfolding h_def by (rule rnd_near)
  show ?thesis unfolding fsub_def fmul_def using 1 2 3 h by (simp add: abs_le_iff) argo
qed

lemma glm_cross_near:
  assumes "vnear (1048577 / 1048576) a vec0" and "vnear (1048577 / 1048576) b vec0"
  shows "vnear (5 / 16777216) (glm_cross a b) (vcross a b)"
proof -
  have a: "\<bar>vec_x a\<bar> \<le> 1048577 / 1048576" "\<bar>vec_y a\<bar> \<le> 1048577 / 1048576"
    "\<bar>vec_z a\<bar> \<le> 1048577 / 1048576"
    using assms(1) unfolding vnear_def vec0_def by simp_all
  have b: "\<bar>vec_x b\<bar> \<le> 1048577 / 1048576" "\<bar>vec_y b\<bar> \<le> 1048577 / 1048576"
    "\<bar>vec_z b\<bar> \<le> 1048577 / 1048576"
    using assms(2) unfolding vnear_def vec0_def by simp_all
  show ?thesis
    unfolding vnear_def glm_cross_def vcross_def vec3.select_convs
    by (intro conjI fcross_term a b)
qed

lemma fmul_fixed: "rnd (fmul a b) = fmul a b"
  by (simp add: fmul_def rnd_idem)

lemma glm_cross_world_up:
  "glm_cross (glm_normalize v) \<lparr>vec_x = 0, vec_y = 1, vec_z = 0\<rparr> =
     \<lparr>vec_x = - vec_z (glm_normalize v), vec_y = 0, vec_z = vec_x (glm_normalize v)\<rparr>"
  by (simp add: glm_cross_def glm_normalize_def vec_scale_def fsub_def rnd_zero rnd_minus fmul_fixed
      fmul_fixed [unfolded fmul_def] fmul_def)

lemma vnear_of_square:
  assumes "vdot v v \<le> B * B" and "0 \<le> B"
  shows "vnear B v vec0"
proof -
  have b: "\<bar>a\<bar> \<le> B" if "a * a \<le> vdot v v" for a
  proof -
    have "a\<^sup>2 \<le> B\<^sup>2" using that assms(1) by (simp add: power2_eq_square)
    then have "\<bar>a\<bar> \<le> \<bar>B\<bar>" by (simp add: abs_le_square_iff)
    then show ?thesis using assms(2) by simp
  qed
  show ?thesis by (simp add: vnear_def vec0_def b vdot_def)
qed

lemma abs_divide_le:
  fixes x t c :: real
  assumes "c \<le> t" and "0 < c"
  shows "\<bar>x / t\<bar> \<le> \<bar>x\<bar> / c"
proof -
  have "\<bar>x\<bar> / t \<le> \<bar>x\<bar> / c" using assms by (intro divide_left_mono) simp_all
  then show ?thesis using assms by simp
qed

lemma vnorm_near_one:
  assumes "\<bar>vdot v v - 1\<bar> \<le> e"
  shows "\<bar>vnorm v - 1\<bar> \<le> e"
proof -
  have "0 \<le> vdot v v" by (simp add: vdot_def)
  then have "\<bar>sqrt (vdot v v) - 1\<bar> \<le> \<bar>vdot v v - 1\<bar>" by (rule sqrt_near_one)
  then show ?thesis using assms by (simp add: vnorm_def)
qed

lemma up_orthogonal:
  assumes p: "vnear (1048577 / 1048576) p vec0" and pe: "vdot p e = 0"
    and ce: "vnear (5 / 16777216) c e"
    and lo: "1 / 2 ^ 24 \<le> vdot c c" and hi: "vdot c c \<le> 4" and t: "1 / 2 \<le> vnorm c"
  shows "\<bar>vdot p (glm_normalize c)\<bar> \<le> 81 / 16777216"
proof -
  have "\<bar>vdot p (glm_normalize c) - vdot p (vunit c)\<bar> \<le> 3 * (1048577 / 1048576 * (1 / 1048576))"
    using p glm_normalize_vnear [OF lo hi] by (rule vdot_near)
  then have 1: "\<bar>vdot p (glm_normalize c) - vdot p c / vnorm c\<bar> \<le> 49 / 16777216"
    unfolding vdot_vunit by argo
  have "\<bar>vdot p c - vdot p e\<bar> \<le> 3 * (1048577 / 1048576 * (5 / 16777216))"
    using p ce by (rule vdot_near)
  then have 2: "\<bar>vdot p c\<bar> \<le> 16 / 16777216" unfolding pe by argo
  have "\<bar>vdot p c / vnorm c\<bar> \<le> \<bar>vdot p c\<bar> / (1 / 2)" using t by (intro abs_divide_le) simp_all
  then have "\<bar>vdot p c / vnorm c\<bar> \<le> 32 / 16777216" using 2 by argo
  then show ?thesis using 1 by argo
qed

lemma forward_planar:
  assumes lo: "1 / 2 ^ 24 \<le> vdot v v" and hi: "vdot v v \<le> 4"
    and a: "a * a \<le> vdot v v" and big: "1 / 512 \<le> \<bar>a\<bar>"
    and n: "\<bar>b - a / vnorm v\<bar> \<le> 1 / 1048576"
  shows "1 / 2 ^ 22 \<le> b * b"
proof -
  have "vdot v v \<le> 2\<^sup>2" using hi by simp
  then have t2: "vnorm v \<le> 2" unfolding vnorm_def by (intro real_le_lsqrt) simp_all
  have "(1 / 4096)\<^sup>2 \<le> vdot v v" using lo by (simp add: power2_eq_square)
  then have "1 / 4096 \<le> vnorm v" unfolding vnorm_def by (rule real_le_rsqrt)
  then have t0: "0 < vnorm v" by simp
  have "\<bar>a\<bar> / 2 \<le> \<bar>a\<bar> / vnorm v" using t2 t0 by (intro divide_left_mono) simp_all
  moreover have "\<bar>a / vnorm v\<bar> = \<bar>a\<bar> / vnorm v" using t0 by simp
  ultimately have "1 / 1024 \<le> \<bar>a / vnorm v\<bar>" using big by argo
  then have "1 / 2048 \<le> \<bar>b\<bar>" using n by argo
  then have "1 / 2048 * (1 / 2048) \<le> \<bar>b\<bar> * \<bar>b\<bar>" by (intro mult_mono) simp_all
  then show ?thesis by simp
qed

lemma camera_basis:
  assumes lo: "1 / 2 ^ 24 \<le> vdot v v" and hi: "vdot v v \<le> 4"
    and xz: "1 / 512 \<le> \<bar>vec_x v\<bar> \<or> 1 / 512 \<le> \<bar>vec_z v\<bar>"
  defines "f \<equiv> glm_normalize v"
  defines "r \<equiv> glm_normalize (glm_cross f \<lparr>vec_x = 0, vec_y = 1, vec_z = 0\<rparr>)"
  defines "up \<equiv> glm_normalize (glm_cross r f)"
  shows "orthonormal_within (1 / 2 ^ 17) f r up" and "\<bar>triple f r up + 1\<bar> \<le> 1 / 2 ^ 14"
proof -
  define c1 where "c1 = \<lparr>vec_x = - vec_z f, vec_y = 0, vec_z = vec_x f\<rparr>"
  define c2 where "c2 = glm_cross r f"
  define e where "e = vcross r f"
  have nf: "vnear (1048577 / 1048576) f vec0" unfolding f_def using lo hi by (rule glm_normalize_bound)
  have uf: "\<bar>vdot f f - 1\<bar> \<le> 7 / 1048576" unfolding f_def using lo hi by (rule glm_normalize_unit)
  have fw: "vnear (1 / 1048576) f (vunit v)" unfolding f_def using lo hi by (rule glm_normalize_vnear)
  have "1 / 2 ^ 22 \<le> vec_x f * vec_x f \<or> 1 / 2 ^ 22 \<le> vec_z f * vec_z f"
  proof (rule disjE [OF xz])
    assume "1 / 512 \<le> \<bar>vec_x v\<bar>"
    moreover have "vec_x v * vec_x v \<le> vdot v v" by (simp add: vdot_def)
    moreover have "\<bar>vec_x f - vec_x v / vnorm v\<bar> \<le> 1 / 1048576"
      using fw by (simp add: vnear_def vunit_def)
    ultimately have "1 / 2 ^ 22 \<le> vec_x f * vec_x f" using lo hi by (intro forward_planar [of v]) 
    then show ?thesis ..
  next
    assume "1 / 512 \<le> \<bar>vec_z v\<bar>"
    moreover have "vec_z v * vec_z v \<le> vdot v v" by (simp add: vdot_def)
    moreover have "\<bar>vec_z f - vec_z v / vnorm v\<bar> \<le> 1 / 1048576"
      using fw by (simp add: vnear_def vunit_def)
    ultimately have "1 / 2 ^ 22 \<le> vec_z f * vec_z f" using lo hi by (intro forward_planar [of v])
    then show ?thesis ..
  qed
  moreover have n1: "vdot c1 c1 = vec_z f * vec_z f + vec_x f * vec_x f" by (simp add: vdot_def c1_def)
  moreover have "0 \<le> vec_x f * vec_x f" "0 \<le> vec_z f * vec_z f" by simp_all
  ultimately have "1 / 2 ^ 22 \<le> vdot c1 c1" by linarith
  then have lo1: "1 / 2 ^ 24 \<le> vdot c1 c1" by simp
  have "vdot c1 c1 \<le> vdot f f" unfolding n1 by (simp add: vdot_def)
  then have hi1: "vdot c1 c1 \<le> 4" using uf by argo
  have r: "r = glm_normalize c1" unfolding r_def f_def c1_def by (simp only: glm_cross_world_up)
  have nr: "vnear (1048577 / 1048576) r vec0" unfolding r using lo1 hi1 by (rule glm_normalize_bound)
  have ur: "\<bar>vdot r r - 1\<bar> \<le> 7 / 1048576" unfolding r using lo1 hi1 by (rule glm_normalize_unit)
  have "vdot f c1 = 0" by (simp add: vdot_def c1_def)
  then have "vdot f (vunit c1) = 0" by (simp add: vdot_vunit)
  moreover have "\<bar>vdot f r - vdot f (vunit c1)\<bar> \<le> 3 * (1048577 / 1048576 * (1 / 1048576))"
    unfolding r using nf glm_normalize_vnear [OF lo1 hi1] by (rule vdot_near)
  ultimately have fr: "\<bar>vdot f r\<bar> \<le> 49 / 16777216" by argo

  have ce: "vnear (5 / 16777216) c2 e" unfolding c2_def e_def using nr nf by (rule glm_cross_near)
  have pe: "vdot r e = 0" "vdot f e = 0" unfolding e_def by (rule vcross_orth)+
  define A where "A = vdot r r"
  define B where "B = vdot f f"
  define C where "C = vdot r f"
  have E: "vdot e e = A * B - C * C" unfolding e_def A_def B_def C_def by (rule lagrange)
  have "\<bar>A\<bar> \<le> 1048583 / 1048576" using ur unfolding A_def by argo
  moreover have "\<bar>B - 1\<bar> \<le> 7 / 1048576" using uf by (simp add: B_def)
  ultimately have "\<bar>A * B - A * 1\<bar> \<le> 1048583 / 1048576 * (7 / 1048576)" by (rule prod_near)
  moreover have "\<bar>A - 1\<bar> \<le> 7 / 1048576" using ur by (simp add: A_def)
  ultimately have AB: "\<bar>A * B - 1\<bar> \<le> 225 / 16777216" by (simp add: abs_le_iff) argo
  have Cb: "\<bar>C\<bar> \<le> 49 / 16777216" using fr by (simp add: C_def vdot_commute [of r f])
  then have "\<bar>C\<bar> * \<bar>C\<bar> \<le> 49 / 16777216 * (49 / 16777216)" by (intro mult_mono) simp_all
  then have "C * C \<le> 1 / 16777216" "0 \<le> C * C" by simp_all
  then have Ee: "\<bar>vdot e e - 1\<bar> \<le> 226 / 16777216" unfolding E using AB by argo
  then have "vdot e e \<le> 1025 / 1024 * (1025 / 1024)" by argo
  then have ne: "vnear (1025 / 1024) e vec0" by (rule vnear_of_square) simp
  have nc2: "vnear (1026 / 1024) c2 vec0"
    using ne ce unfolding vnear_def vec0_def by (simp add: abs_le_iff) argo
  have "\<bar>vdot c2 c2 - vdot c2 e\<bar> \<le> 3 * (1026 / 1024 * (5 / 16777216))"
    using nc2 ce by (rule vdot_near)
  moreover have ec: "\<bar>vdot e c2 - vdot e e\<bar> \<le> 3 * (1025 / 1024 * (5 / 16777216))"
    using ne ce by (rule vdot_near)
  ultimately have N2: "\<bar>vdot c2 c2 - 1\<bar> \<le> 258 / 16777216"
    using Ee unfolding vdot_commute [of c2 e] by argo
  then have lo2: "1 / 2 ^ 24 \<le> vdot c2 c2" and hi2: "vdot c2 c2 \<le> 4" by (simp_all add: abs_le_iff) argo+
  have "\<bar>vnorm c2 - 1\<bar> \<le> 258 / 16777216" using N2 by (rule vnorm_near_one)
  then have t2: "1023 / 1024 \<le> vnorm c2" "\<bar>vnorm c2 - 1\<bar> \<le> 258 / 16777216" by argo+
  then have t2': "1 / 2 \<le> vnorm c2" by argo
  have up: "up = glm_normalize c2" by (simp add: up_def c2_def)
  have uu: "\<bar>vdot up up - 1\<bar> \<le> 7 / 1048576" unfolding up using lo2 hi2 by (rule glm_normalize_unit)
  have fu: "\<bar>vdot f up\<bar> \<le> 81 / 16777216" unfolding up using nf pe(2) ce lo2 hi2 t2' by (rule up_orthogonal)
  have ru: "\<bar>vdot r up\<bar> \<le> 81 / 16777216" unfolding up using nr pe(1) ce lo2 hi2 t2' by (rule up_orthogonal)
  have "\<bar>vnorm f - 1\<bar> \<le> 7 / 1048576" "\<bar>vnorm r - 1\<bar> \<le> 7 / 1048576" "\<bar>vnorm up - 1\<bar> \<le> 7 / 1048576"
    using uf ur uu by (simp_all only: vnorm_near_one)
  then show "orthonormal_within (1 / 2 ^ 17) f r up"
    using fr fu ru unfolding orthonormal_within_def by simp

  have tr: "triple f r up = - vdot e up" by (simp add: triple_def e_def vdot_def vcross_def algebra_simps)
  have "\<bar>vdot e up - vdot e (vunit c2)\<bar> \<le> 3 * (1025 / 1024 * (1 / 1048576))"
    unfolding up using ne glm_normalize_vnear [OF lo2 hi2] by (rule vdot_near)
  then have 1: "\<bar>vdot e up - vdot e c2 / vnorm c2\<bar> \<le> 49 / 16777216" unfolding vdot_vunit by argo
  define G where "G = vdot e c2"
  define t where "t = vnorm c2"
  have G: "\<bar>G - t\<bar> \<le> 500 / 16777216" using ec Ee t2(2) unfolding G_def t_def by argo
  have t0: "0 < t" using t2' by (simp add: t_def)
  have "G / t - 1 = (G - t) / t" using t0 by (simp add: diff_divide_distrib)
  moreover have "\<bar>(G - t) / t\<bar> \<le> \<bar>G - t\<bar> / (1023 / 1024)" using t2(1) unfolding t_def by (intro abs_divide_le) simp_all
  ultimately have "\<bar>G / t - 1\<bar> \<le> 501 / 16777216" using G by argo
  then have "\<bar>vdot e up - 1\<bar> \<le> 550 / 16777216" using 1 unfolding G_def t_def by argo
  then have "\<bar>- vdot e up + 1\<bar> \<le> 1 / 16384" by argo
  then show "\<bar>triple f r up + 1\<bar> \<le> 1 / 2 ^ 14" unfolding tr by simp
qed

lemma cos_kClamp_lower: "1 / 256 \<le> cos (13092909 / 8388608 :: real)"
proof -
  define x :: real where "x = 13092909 / 8388608"
  define P where "P = 1 - x ^ 2 / 2 + x ^ 4 / 24 - x ^ 6 / 720"
  define Q where "Q = x ^ 8 / fact 8"
  have "0 < x" by (simp add: x_def)
  then obtain t where "cos x = (\<Sum>m<8. cos_coeff m * x ^ m) + cos (t + 1 / 2 * real 8 * pi) / fact 8 * x ^ 8"
    using Maclaurin_cos_expansion2 [of x 8] by auto
  moreover define c where "c = cos (t + 1 / 2 * real 8 * pi)"
  moreover have "(\<Sum>m<8. cos_coeff m * x ^ m) = P"
    unfolding P_def by (simp add: eval_nat_numeral cos_coeff_Suc sin_coeff_Suc)
  ultimately have e: "cos x = P + c * Q" by (simp add: Q_def)
  have "- 1 \<le> c" unfolding c_def by (rule cos_ge_minus_one)
  moreover have "0 \<le> Q" using \<open>0 < x\<close> by (simp add: Q_def)
  ultimately have "- 1 * Q \<le> c * Q" by (rule mult_right_mono)
  moreover have "1 / 256 \<le> P - Q"
    unfolding P_def Q_def x_def by (simp add: fact_numeral power_divide)
  ultimately have "1 / 256 \<le> cos x" unfolding e by linarith
  then show ?thesis by (simp add: x_def)
qed

lemma rnd_small_powers: "rnd (1 / 256) = 1 / 256" "rnd (1 / 2) = 1 / 2" "rnd (1 / 512) = 1 / 512"
  by code_simp+

lemma cosf_pitch:
  assumes "- kClamp \<le> p" and "p \<le> kClamp"
  shows "1 / 256 \<le> cosf p" and "cosf p \<le> 1"
proof -
  have "\<bar>p\<bar> \<le> kClamp" using assms by simp
  moreover have "kClamp \<le> pi" using kClamp_less_half_pi pi_ge_two by linarith
  ultimately have "cos kClamp \<le> cos \<bar>p\<bar>" by (intro cos_monotone_0_pi_le) simp_all
  then have "1 / 256 \<le> cos p" using cos_kClamp_lower by (simp add: kClamp_value)
  then have "rnd (1 / 256) \<le> rnd (cos p)" by (rule rnd_mono)
  then show "1 / 256 \<le> cosf p" by (simp add: cosf_def rnd_small_powers)
  have "rnd (cos p) \<le> rnd 1" by (intro rnd_mono) simp
  then show "cosf p \<le> 1" by (simp add: cosf_def rnd_one)
qed

lemma trig_half: "1 / 2 \<le> \<bar>cos y\<bar> \<or> 1 / 2 \<le> \<bar>sin (y :: real)\<bar>"
proof (rule ccontr)
  assume "\<not> ?thesis"
  then have c: "\<bar>cos y\<bar> < 1 / 2" and s: "\<bar>sin y\<bar> < 1 / 2" by simp_all
  have "\<bar>cos y\<bar> * \<bar>cos y\<bar> \<le> 1 / 2 * (1 / 2)" using c by (intro mult_mono) simp_all
  moreover have "\<bar>sin y\<bar> * \<bar>sin y\<bar> \<le> 1 / 2 * (1 / 2)" using s by (intro mult_mono) simp_all
  moreover have "sin y * sin y + cos y * cos y = 1"
    using sin_cos_squared_add [of y] by (simp add: power2_eq_square)
  ultimately show False by simp
qed

lemma fmul_cosf_big:
  assumes c: "1 / 256 \<le> c" and y: "1 / 2 \<le> \<bar>y\<bar>"
  shows "1 / 512 \<le> \<bar>fmul c (rnd y)\<bar>"
proof -
  have "rnd (1 / 2) \<le> rnd \<bar>y\<bar>" using y by (rule rnd_mono)
  then have "1 / 2 \<le> \<bar>rnd y\<bar>" by (simp add: rnd_abs rnd_small_powers)
  then have "1 / 256 * (1 / 2) \<le> c * \<bar>rnd y\<bar>" using c by (intro mult_mono) simp_all
  then have "1 / 512 \<le> \<bar>c * rnd y\<bar>" using c by (simp add: abs_mult)
  then have "rnd (1 / 512) \<le> rnd \<bar>c * rnd y\<bar>" by (rule rnd_mono)
  then show ?thesis by (simp add: fmul_def rnd_abs rnd_small_powers)
qed

lemma fmul_unit:
  assumes "\<bar>a\<bar> \<le> 1" and "\<bar>b\<bar> \<le> 1"
  shows "\<bar>fmul a b\<bar> \<le> 1"
proof -
  have "\<bar>a\<bar> * \<bar>b\<bar> \<le> 1 * 1" using assms by (intro mult_mono) simp_all
  then have "\<bar>a * b\<bar> \<le> 1" by (simp add: abs_mult)
  then show ?thesis unfolding fmul_def by (rule rnd_unit_bound)
qed

lemma square_unit: "\<bar>a\<bar> \<le> 1 \<Longrightarrow> a * a \<le> (1 :: real)"
proof -
  assume "\<bar>a\<bar> \<le> 1"
  then have "\<bar>a\<bar> * \<bar>a\<bar> \<le> 1 * 1" by (intro mult_mono) simp_all
  then show ?thesis by simp
qed

lemma forward_raw:
  fixes p y :: real
  assumes "- kClamp \<le> p" and "p \<le> kClamp"
  defines "v \<equiv> \<lparr>vec_x = fmul (cosf p) (cosf y), vec_y = sinf p, vec_z = fmul (cosf p) (sinf y)\<rparr>"
  shows "1 / 2 ^ 24 \<le> vdot v v" and "vdot v v \<le> 4"
    and "1 / 512 \<le> \<bar>vec_x v\<bar> \<or> 1 / 512 \<le> \<bar>vec_z v\<bar>"
proof -
  have c: "1 / 256 \<le> cosf p" "cosf p \<le> 1" using assms(1,2) by (rule cosf_pitch)+
  then have c1: "\<bar>cosf p\<bar> \<le> 1" by simp
  have t: "\<bar>cosf y\<bar> \<le> 1" "\<bar>sinf y\<bar> \<le> 1" "\<bar>sinf p\<bar> \<le> 1"
    unfolding cosf_def sinf_def by (rule rnd_unit_bound, simp)+
  have "\<bar>vec_x v\<bar> \<le> 1" "\<bar>vec_y v\<bar> \<le> 1" "\<bar>vec_z v\<bar> \<le> 1"
    using c1 t by (simp_all add: v_def fmul_unit)
  then have "vec_x v * vec_x v \<le> 1" "vec_y v * vec_y v \<le> 1" "vec_z v * vec_z v \<le> 1"
    by (simp_all only: square_unit)
  then show "vdot v v \<le> 4" unfolding vdot_def by linarith
  show big: "1 / 512 \<le> \<bar>vec_x v\<bar> \<or> 1 / 512 \<le> \<bar>vec_z v\<bar>"
    using trig_half [of y] fmul_cosf_big [OF c(1)] by (auto simp add: v_def cosf_def sinf_def)
  have s: "1 / 2 ^ 24 \<le> a * a" if "1 / 512 \<le> \<bar>a\<bar>" for a :: real
  proof -
    have "1 / 512 * (1 / 512) \<le> \<bar>a\<bar> * \<bar>a\<bar>" using that by (intro mult_mono) simp_all
    then show ?thesis by simp
  qed
  have "0 \<le> vec_x v * vec_x v" "0 \<le> vec_y v * vec_y v" "0 \<le> vec_z v * vec_z v" by simp_all
  moreover have "1 / 2 ^ 24 \<le> vec_x v * vec_x v \<or> 1 / 2 ^ 24 \<le> vec_z v * vec_z v"
    using big s by blast
  ultimately show "1 / 2 ^ 24 \<le> vdot v v" unfolding vdot_def by linarith
qed

lemma frame_params_basis:
  "CameraForward (frame_params s) =
     glm_normalize \<lparr>vec_x = fmul (cosf (pitch s)) (cosf (yaw s)), vec_y = sinf (pitch s),
                    vec_z = fmul (cosf (pitch s)) (sinf (yaw s))\<rparr>"
  "CameraRight (frame_params s) =
     glm_normalize (glm_cross (CameraForward (frame_params s)) \<lparr>vec_x = 0, vec_y = 1, vec_z = 0\<rparr>)"
  "CameraUp (frame_params s) =
     glm_normalize (glm_cross (CameraRight (frame_params s)) (CameraForward (frame_params s)))"
  by (simp_all add: frame_params_def Let_def)

lemma normalize_axis:
  "glm_normalize \<lparr>vec_x = 1, vec_y = 0, vec_z = 0\<rparr> = \<lparr>vec_x = 1, vec_y = 0, vec_z = 0\<rparr>"
  "glm_normalize \<lparr>vec_x = 0, vec_y = 1, vec_z = 0\<rparr> = \<lparr>vec_x = 0, vec_y = 1, vec_z = 0\<rparr>"
  "glm_normalize \<lparr>vec_x = 0, vec_y = 0, vec_z = 1\<rparr> = \<lparr>vec_x = 0, vec_y = 0, vec_z = 1\<rparr>"
  by (simp_all add: glm_normalize_def vec_scale_def glm_inversesqrt_def glm_dot_def sqrtf_def
      fadd_def fmul_def fdiv_def rnd_one rnd_zero)

lemma frame_params_init:
  "CameraForward (frame_params host_init) = \<lparr>vec_x = 1, vec_y = 0, vec_z = 0\<rparr>"
  "CameraRight (frame_params host_init) = \<lparr>vec_x = 0, vec_y = 0, vec_z = 1\<rparr>"
  "CameraUp (frame_params host_init) = \<lparr>vec_x = 0, vec_y = 1, vec_z = 0\<rparr>"
  by (simp_all add: frame_params_def Let_def host_init_def cosf_def sinf_def fmul_def fsub_def
      glm_cross_def rnd_one rnd_zero rnd_minus normalize_axis)

section \<open>The claims\<close>

subsection \<open>C1: the letterbox keeps the image aspect\<close>

text \<open>
  C1, as the code has it. The comparison runs the other way round than the claim words it:
  when the image is wider than the target (\<open>HEIGHT * width < WIDTH * height\<close>, the image aspect
  exceeds the target aspect) the image takes the full target width, its height is
  \<open>HEIGHT * width div WIDTH\<close> and it is centred vertically; otherwise it takes the full target
  height, its width is \<open>WIDTH * height div HEIGHT\<close> and it is centred horizontally. This holds
  for every target of non-zero size that is less than 1491316 pixels wide and less than
  1118487 pixels high: at that width and at that height the binary32 arithmetic of the block
  first rounds a pixel away.
\<close>

theorem letterbox_fits_image:
  assumes "0 < uint width" "uint width < 1491316" "0 < uint height" "uint height < 1118487"
  shows "letterbox width height = Some
     (if HEIGHT * uint width < WIDTH * uint height
      then \<lparr>rect_x = 0,
            rect_y = word_of_int ((uint height - HEIGHT * uint width div WIDTH) div 2),
            rect_w = width,
            rect_h = word_of_int (HEIGHT * uint width div WIDTH)\<rparr>
      else \<lparr>rect_x = word_of_int ((uint width - WIDTH * uint height div HEIGHT) div 2),
            rect_y = 0,
            rect_w = word_of_int (WIDTH * uint height div HEIGHT),
            rect_h = height\<rparr>)"
  using assms letterbox_narrow [of width height] letterbox_wide [of width height] by simp

text \<open>
  C1, witness: a 1280 by 1024 target is narrower than 4:3 and gets bars above and below; the
  largest target of the theorem, 1491315 by 1118486, is wider than 4:3 by a hair and gets the
  full height and a width of 1491314.
\<close>

theorem letterbox_fits_image_witness:
  "0 < uint (1280 :: u32) \<and> uint (1280 :: u32) < 1491316
   \<and> 0 < uint (1024 :: u32) \<and> uint (1024 :: u32) < 1118487
   \<and> letterbox 1280 1024 = Some \<lparr>rect_x = 0, rect_y = 32, rect_w = 1280, rect_h = 960\<rparr>
   \<and> 0 < uint (1491315 :: u32) \<and> uint (1491315 :: u32) < 1491316
   \<and> 0 < uint (1118486 :: u32) \<and> uint (1118486 :: u32) < 1118487
   \<and> letterbox 1491315 1118486
       = Some \<lparr>rect_x = 0, rect_y = 0, rect_w = 1491314, rect_h = 1118486\<rparr>"
  using letterbox_fits_image [of 1280 1024] letterbox_fits_image [of 1491315 1118486]
  by (simp add: WIDTH_def HEIGHT_def)

text \<open>
  C1, counterexample. The 1920 by 1080 target has the larger aspect (16:9 against 4:3), and
  the image is not stretched to the full target width: it is 1440 wide, as high as the
  target, with bars of 240 pixels left and right. The sizes are bounded because the
  rectangle is computed in binary32: on the 4:3 target of 1491316 by 1118487 the image is
  drawn 1491315 wide, not 1491316, and on a target of 1491316 by 1118488 it is drawn 1118486
  high, not 1118487.
\<close>

theorem letterbox_direction_counterexample:
  "(960 :: real) / 720 < 1920 / 1080
   \<and> letterbox 1920 1080 = Some \<lparr>rect_x = 240, rect_y = 0, rect_w = 1440, rect_h = 1080\<rparr>
   \<and> letterbox 1491316 1118487
       = Some \<lparr>rect_x = 0, rect_y = 0, rect_w = 1491315, rect_h = 1118487\<rparr>
   \<and> WIDTH * 1118487 div HEIGHT = 1491316
   \<and> letterbox 1491316 1118488
       = Some \<lparr>rect_x = 0, rect_y = 1, rect_w = 1491316, rect_h = 1118486\<rparr>
   \<and> HEIGHT * 1491316 div WIDTH = 1118487"
  by code_simp

subsection \<open>C2: the pitch stays in the clamp band\<close>

text \<open>
  C2, as the code has it. \<^verbatim>\<open>std::clamp\<close> keeps the pitch in the closed band from \<open>- kClamp\<close> to
  \<open>kClamp\<close>: whatever events arrive, a pitch that starts in the band stays in it, and since
  \<open>kClamp\<close> is below \<open>pi / 2\<close> the pitch never reaches a pole. The bounds themselves are
  attained.
\<close>

theorem pitch_stays_in_band:
  assumes "- kClamp \<le> pitch s" and "pitch s \<le> kClamp"
  shows "- kClamp \<le> pitch (fst (PollEvents evs (s, running)))
     \<and> pitch (fst (PollEvents evs (s, running))) \<le> kClamp
     \<and> - (pi / 2) < pitch (fst (PollEvents evs (s, running)))
     \<and> pitch (fst (PollEvents evs (s, running))) < pi / 2"
  using PollEvents_pitch [of s evs running] assms kClamp_less_half_pi by simp

text \<open>
  C2, witness: the initial pitch is in the band, and stays below the pole after a drag of
  1000 units.
\<close>

theorem pitch_stays_in_band_witness:
  "- kClamp \<le> pitch host_init \<and> pitch host_init \<le> kClamp
   \<and> - (pi / 2) < pitch (fst (PollEvents [MOUSE_MOTION SDL_BUTTON_LMASK 0 1000] (host_init, True)))
   \<and> pitch (fst (PollEvents [MOUSE_MOTION SDL_BUTTON_LMASK 0 1000] (host_init, True))) < pi / 2"
proof -
  have "- kClamp \<le> pitch host_init" and "pitch host_init \<le> kClamp"
    using kClamp_pos by (simp_all add: host_init_def)
  then show ?thesis
    using pitch_stays_in_band [of host_init "[MOUSE_MOTION SDL_BUTTON_LMASK 0 1000]" True]
    by blast
qed

text \<open>
  C2, counterexample: one drag of 1000 units with the left button held takes the pitch
  from 0 to the upper bound exactly, so the pitch is not strictly inside the band.
\<close>

theorem pitch_reaches_bound_counterexample:
  "pitch (fst (PollEvents [MOUSE_MOTION SDL_BUTTON_LMASK 0 1000] (host_init, True))) = kClamp"
  by (simp add: host_init_def SDL_BUTTON_LMASK_def std_clamp_def big_drag kClamp_value)

subsection \<open>C3: the camera basis\<close>

text \<open>
  C3, as the code has it. For every yaw and every pitch in the clamp band, the frame parameters
  hold forward = normalize (cos pitch cos yaw, sin pitch, cos pitch sin yaw), right =
  normalize (forward \<times> world-up) and up = normalize (right \<times> forward), each computed in
  \<^verbatim>\<open>float\<close>. Measured exactly, the pairwise dot products of the three vectors are within
  \<open>1 / 2 ^ 17\<close> of zero and their magnitudes within \<open>1 / 2 ^ 17\<close> of one. The triple product
  (forward \<times> right) \<cdot> up is within \<open>1 / 2 ^ 14\<close> of \<open>- 1\<close>, not of 1: in the order forward,
  right, up the basis is left-handed (it is right-handed in the order right, forward, up).
  Of \<^verbatim>\<open>std::cos\<close> and \<^verbatim>\<open>std::sin\<close> the proof uses that they are monotone roundings of the
  exact functions.
\<close>

theorem camera_basis_orthonormal:
  assumes "- kClamp \<le> pitch s" and "pitch s \<le> kClamp"
  shows "CameraForward (frame_params s) =
      glm_normalize \<lparr>vec_x = fmul (cosf (pitch s)) (cosf (yaw s)), vec_y = sinf (pitch s),
                     vec_z = fmul (cosf (pitch s)) (sinf (yaw s))\<rparr>
    \<and> CameraRight (frame_params s) =
      glm_normalize (glm_cross (CameraForward (frame_params s)) \<lparr>vec_x = 0, vec_y = 1, vec_z = 0\<rparr>)
    \<and> CameraUp (frame_params s) =
      glm_normalize (glm_cross (CameraRight (frame_params s)) (CameraForward (frame_params s)))
    \<and> orthonormal_within (1 / 2 ^ 17)
      (CameraForward (frame_params s)) (CameraRight (frame_params s)) (CameraUp (frame_params s))
    \<and> \<bar>triple (CameraForward (frame_params s)) (CameraRight (frame_params s))
         (CameraUp (frame_params s)) + 1\<bar> \<le> 1 / 2 ^ 14"
proof -
  note raw = forward_raw [OF assms, of "yaw s"]
  have "orthonormal_within (1 / 2 ^ 17)
      (CameraForward (frame_params s)) (CameraRight (frame_params s)) (CameraUp (frame_params s))"
    unfolding frame_params_basis(2,3) unfolding frame_params_basis(1) using raw by (rule camera_basis(1))
  moreover have "\<bar>triple (CameraForward (frame_params s)) (CameraRight (frame_params s))
         (CameraUp (frame_params s)) + 1\<bar> \<le> 1 / 2 ^ 14"
    unfolding frame_params_basis(2,3) unfolding frame_params_basis(1) using raw by (rule camera_basis(2))
  ultimately show ?thesis using frame_params_basis [of s] by simp
qed

text \<open>
  C3, witness: the pitch at the upper bound of the band, where forward is closest to the
  vertical, with a yaw of 2.
\<close>

theorem camera_basis_orthonormal_witness:
  "- kClamp \<le> pitch (host_init\<lparr>pitch := kClamp, yaw := 2\<rparr>)
    \<and> pitch (host_init\<lparr>pitch := kClamp, yaw := 2\<rparr>) \<le> kClamp
    \<and> orthonormal_within (1 / 2 ^ 17)
      (CameraForward (frame_params (host_init\<lparr>pitch := kClamp, yaw := 2\<rparr>)))
      (CameraRight (frame_params (host_init\<lparr>pitch := kClamp, yaw := 2\<rparr>)))
      (CameraUp (frame_params (host_init\<lparr>pitch := kClamp, yaw := 2\<rparr>)))
    \<and> \<bar>triple (CameraForward (frame_params (host_init\<lparr>pitch := kClamp, yaw := 2\<rparr>)))
         (CameraRight (frame_params (host_init\<lparr>pitch := kClamp, yaw := 2\<rparr>)))
         (CameraUp (frame_params (host_init\<lparr>pitch := kClamp, yaw := 2\<rparr>))) + 1\<bar> \<le> 1 / 2 ^ 14"
proof -
  have h: "- kClamp \<le> pitch (host_init\<lparr>pitch := kClamp, yaw := 2\<rparr>)"
    "pitch (host_init\<lparr>pitch := kClamp, yaw := 2\<rparr>) \<le> kClamp"
    using kClamp_pos by simp_all
  from camera_basis_orthonormal [OF h] h show ?thesis by blast
qed

text \<open>
  C3, counterexample: with the initial pitch and yaw of 0 the three vectors are exactly
  \<open>(1, 0, 0)\<close>, \<open>(0, 0, 1)\<close> and \<open>(0, 1, 0)\<close>; forward \<times> right is \<open>- up\<close> and the triple product is
  \<open>- 1\<close>, so the triple forward, right, up is not right-handed.
\<close>

theorem camera_basis_left_handed_counterexample:
  "CameraForward (frame_params host_init) = \<lparr>vec_x = 1, vec_y = 0, vec_z = 0\<rparr>
    \<and> CameraRight (frame_params host_init) = \<lparr>vec_x = 0, vec_y = 0, vec_z = 1\<rparr>
    \<and> CameraUp (frame_params host_init) = \<lparr>vec_x = 0, vec_y = 1, vec_z = 0\<rparr>
    \<and> glm_cross (CameraForward (frame_params host_init)) (CameraRight (frame_params host_init))
      = vec_neg (CameraUp (frame_params host_init))
    \<and> triple (CameraForward (frame_params host_init)) (CameraRight (frame_params host_init))
        (CameraUp (frame_params host_init)) = - 1"
  by (simp add: frame_params_init glm_cross_def vec_neg_def fmul_def fsub_def rnd_one rnd_zero
      rnd_minus triple_def vcross_def vdot_def)

subsection \<open>C4: the wheel floors the distance at 1\<close>

text \<open>
  C4. A wheel event replaces the distance by the larger of 1 and the distance less
  \<open>wheel_y * kZoom\<close>. So the distance is at least 1 after a wheel event, and after any
  sequence of events from a distance of at least 1; a delta that would take the distance
  below 1 yields exactly 1, and so does applying it any number of times over.
\<close>

theorem wheel_floors_distance:
  "distance (fst (handle_event (MOUSE_WHEEL y) (s, r))) = max 1 (fsub (distance s) (fmul y kZoom))
   \<and> 1 \<le> distance (fst (handle_event (MOUSE_WHEEL y) (s, r)))
   \<and> (1 \<le> distance s \<longrightarrow> 1 \<le> distance (fst (PollEvents evs (s, r))))
   \<and> (fsub (distance s) (fmul y kZoom) < 1 \<longrightarrow>
        distance (fst (handle_event (MOUSE_WHEEL y) (s, r))) = 1)
   \<and> (1 \<le> distance s \<and> fsub (distance s) (fmul y kZoom) < 1 \<longrightarrow>
        distance (fst (PollEvents (replicate (Suc n) (MOUSE_WHEEL y)) (s, r))) = 1)"
proof -
  have "distance (fst (PollEvents (replicate (Suc n) (MOUSE_WHEEL y)) (s, r))) = 1"
    if "1 \<le> distance s" and "fsub (distance s) (fmul y kZoom) < 1"
  proof -
    have "0 < fmul y kZoom" using that by (rule scroll_in_positive)
    moreover have "distance (s\<lparr>distance := std_max 1 (fsub (distance s) (fmul y kZoom))\<rparr>) = 1"
      using that(2) by (simp add: std_max_def)
    ultimately show ?thesis using wheel_repeat by simp
  qed
  then show ?thesis
    using PollEvents_distance [of s evs r] by (auto simp: std_max_def max_def)
qed

text \<open>
  C4, witness: from the initial distance, a wheel delta of 5 would pass the origin; one
  application or three leave the distance at exactly 1.
\<close>

theorem wheel_floors_distance_witness:
  "1 \<le> distance host_init \<and> fsub (distance host_init) (fmul 5 kZoom) < 1
   \<and> distance (fst (handle_event (MOUSE_WHEEL 5) (host_init, True))) = 1
   \<and> 1 \<le> distance (fst (PollEvents [MOUSE_WHEEL (- 3), MOUSE_WHEEL 5] (host_init, True)))
   \<and> distance (fst (PollEvents (replicate (Suc 2) (MOUSE_WHEEL 5)) (host_init, True))) = 1"
proof -
  have 1: "1 \<le> distance host_init" by (simp add: host_init_def distance_init)
  have 2: "fsub (distance host_init) (fmul 5 kZoom) < 1"
    by (simp add: host_init_def scroll_past_origin)
  show ?thesis
    using 1 2 wheel_floors_distance [of 5 host_init True "[MOUSE_WHEEL (- 3), MOUSE_WHEEL 5]" 2]
    by blast
qed

subsection \<open>C5: a zero-area target is submitted empty\<close>

text \<open>
  C5. When the command buffer and the swapchain texture are acquired and the texture is
  null or has zero width or height, \<^verbatim>\<open>Draw\<close> makes three calls: the two acquisitions and the
  submission. Nothing is logged, cancelled, dispatched or blitted, and the statics are
  unchanged.
\<close>

theorem zero_area_frame_submitted:
  assumes "commandBuffer_ok env" and "swapchain_ok env"
    and "\<not> swapchainTexture_ok env \<or> swapchain_width env = 0 \<or> swapchain_height env = 0"
  shows "Draw THREADS env s = Some (s,
     [SDL_AcquireGPUCommandBuffer, SDL_WaitAndAcquireGPUSwapchainTexture,
      SDL_SubmitGPUCommandBuffer])"
  using assms by (auto simp: Draw_def)

text \<open>
  C5, witness: a target of width 0.
\<close>

theorem zero_area_frame_submitted_witness:
  "commandBuffer_ok (frame_ok 0 720) \<and> swapchain_ok (frame_ok 0 720)
   \<and> swapchain_width (frame_ok 0 720) = 0
   \<and> Draw 16 (frame_ok 0 720) host_init = Some (host_init,
     [SDL_AcquireGPUCommandBuffer, SDL_WaitAndAcquireGPUSwapchainTexture,
      SDL_SubmitGPUCommandBuffer])"
  using zero_area_frame_submitted [of "frame_ok 0 720" 16 host_init]
  by (simp add: frame_ok_def)

subsection \<open>C6: what happens to a frame that fails\<close>

text \<open>
  C6, as the code has it. When the swapchain texture cannot be acquired the command buffer
  is cancelled and not submitted. When the compute pass cannot begin, which is after the
  swapchain texture was acquired, the command buffer is submitted, with no dispatch and no
  blit in it. In both cases \<^verbatim>\<open>Draw\<close> returns and the event loop goes on with its next
  iteration: only a quit event stops it.
\<close>

theorem failed_frame_released:
  assumes "commandBuffer_ok env" and "QUIT \<notin> set evs"
    and "s1 = fst (PollEvents evs (s, True))"
  shows "(\<not> swapchain_ok env \<longrightarrow>
       Draw THREADS env s1 = Some (s1,
         [SDL_AcquireGPUCommandBuffer, SDL_WaitAndAcquireGPUSwapchainTexture,
          SDL_Log ''Failed to acquire swapchain texture'', SDL_CancelGPUCommandBuffer])
       \<and> main_loop THREADS ((evs, env) # rest) s =
           map_option (\<lambda>(s3, frames, r).
             (s3, [SDL_AcquireGPUCommandBuffer, SDL_WaitAndAcquireGPUSwapchainTexture,
                   SDL_Log ''Failed to acquire swapchain texture'', SDL_CancelGPUCommandBuffer]
                  # frames, r))
             (main_loop THREADS rest s1))
     \<and> (swapchain_ok env \<and> swapchainTexture_ok env \<and> swapchain_width env \<noteq> 0
        \<and> swapchain_height env \<noteq> 0 \<and> \<not> computePass_ok env \<longrightarrow>
       Draw THREADS env s1 = Some (s1\<lparr>uniformBuffer := frame_params s1\<rparr>,
         [SDL_AcquireGPUCommandBuffer, SDL_WaitAndAcquireGPUSwapchainTexture,
          SDL_BeginGPUComputePass, SDL_Log ''Failed to begin compute pass'',
          SDL_SubmitGPUCommandBuffer])
       \<and> main_loop THREADS ((evs, env) # rest) s =
           map_option (\<lambda>(s3, frames, r).
             (s3, [SDL_AcquireGPUCommandBuffer, SDL_WaitAndAcquireGPUSwapchainTexture,
                   SDL_BeginGPUComputePass, SDL_Log ''Failed to begin compute pass'',
                   SDL_SubmitGPUCommandBuffer]
                  # frames, r))
             (main_loop THREADS rest (s1\<lparr>uniformBuffer := frame_params s1\<rparr>)))"
proof -
  have p: "PollEvents evs (s, True) = (s1, True)"
    using PollEvents_running [OF assms(2), of s True] assms(3)
    by (cases "PollEvents evs (s, True)") simp
  show ?thesis
    using assms(1) by (auto simp: p Draw_def map_option_case split: option.splits)
qed

text \<open>
  C6, witness: one iteration whose compute pass fails to begin, and one whose swapchain
  texture is not acquired; the loop is still running after either.
\<close>

theorem failed_frame_released_witness:
  "commandBuffer_ok frame_no_pass \<and> QUIT \<notin> set [OTHER]
   \<and> host_init = fst (PollEvents [OTHER] (host_init, True))
   \<and> swapchain_ok frame_no_pass \<and> swapchainTexture_ok frame_no_pass
   \<and> swapchain_width frame_no_pass \<noteq> 0 \<and> swapchain_height frame_no_pass \<noteq> 0
   \<and> \<not> computePass_ok frame_no_pass
   \<and> main_loop 16 [([OTHER], frame_no_pass)] host_init =
       Some (host_init\<lparr>uniformBuffer := frame_params host_init\<rparr>,
         [[SDL_AcquireGPUCommandBuffer, SDL_WaitAndAcquireGPUSwapchainTexture,
           SDL_BeginGPUComputePass, SDL_Log ''Failed to begin compute pass'',
           SDL_SubmitGPUCommandBuffer]], True)
   \<and> commandBuffer_ok frame_no_swapchain \<and> \<not> swapchain_ok frame_no_swapchain
   \<and> main_loop 16 [([OTHER], frame_no_swapchain)] host_init =
       Some (host_init,
         [[SDL_AcquireGPUCommandBuffer, SDL_WaitAndAcquireGPUSwapchainTexture,
           SDL_Log ''Failed to acquire swapchain texture'', SDL_CancelGPUCommandBuffer]], True)"
  using failed_frame_released [of frame_no_pass "[OTHER]" host_init host_init 16 "[]"]
    failed_frame_released [of frame_no_swapchain "[OTHER]" host_init host_init 16 "[]"]
  by (simp add: frame_no_pass_def frame_no_swapchain_def frame_ok_def)

text \<open>
  C6, counterexample: the compute pass fails to begin on a 960 by 720 target, and the
  frame ends with the submission of the command buffer, not with its cancellation.
\<close>

theorem failed_pass_submitted_counterexample:
  "map_option snd (Draw 16 frame_no_pass host_init) = Some
     [SDL_AcquireGPUCommandBuffer, SDL_WaitAndAcquireGPUSwapchainTexture,
      SDL_BeginGPUComputePass, SDL_Log ''Failed to begin compute pass'',
      SDL_SubmitGPUCommandBuffer]"
  by (simp add: Draw_def frame_no_pass_def frame_ok_def)

subsection \<open>C7: two example targets\<close>

text \<open>
  C7. On a 1920 by 1080 target the 4:3 image is drawn 1440 by 1080 at (240, 0): full
  height, with bars of 240 pixels left and right. On an 800 by 1000 target it is drawn 800
  by 600 at (0, 200): full width, with bars of 200 pixels above and below.
\<close>

theorem letterbox_examples:
  "letterbox 1920 1080 = Some \<lparr>rect_x = 240, rect_y = 0, rect_w = 1440, rect_h = 1080\<rparr>
   \<and> (1920 :: int) - (240 + 1440) = 240
   \<and> letterbox 800 1000 = Some \<lparr>rect_x = 0, rect_y = 200, rect_w = 800, rect_h = 600\<rparr>
   \<and> (1000 :: int) - (200 + 600) = 200"
  by code_simp

subsection \<open>C8: the dispatch grid\<close>

text \<open>
  C8. A frame that reaches the compute step dispatches a grid of
  \<open>\<lceil>WIDTH / THREADS\<rceil>\<close> by \<open>\<lceil>HEIGHT / THREADS\<rceil>\<close> by 1 work-groups, for every positive
  work-group size \<open>THREADS\<close> for which \<^verbatim>\<open>WIDTH + THREADS\<close> fits an \<^verbatim>\<open>int\<close>. The grid covers the
  image and has no row or column to spare: one group fewer in either direction would not
  cover it.
\<close>

theorem dispatch_covers_image:
  assumes T: "0 < THREADS" "THREADS < 2 ^ 31 - 960"
    and env: "commandBuffer_ok env" "swapchain_ok env" "swapchainTexture_ok env"
      "swapchain_width env \<noteq> 0" "swapchain_height env \<noteq> 0" "computePass_ok env"
    and box: "letterbox (swapchain_width env) (swapchain_height env) = Some box"
  shows "Draw THREADS env s = Some (s\<lparr>uniformBuffer := frame_params s\<rparr>,
       [SDL_AcquireGPUCommandBuffer, SDL_WaitAndAcquireGPUSwapchainTexture,
        SDL_BeginGPUComputePass, SDL_BindGPUComputePipeline,
        SDL_PushGPUComputeUniformData (frame_params s),
        SDL_BindGPUComputeStorageBuffers,
        SDL_DispatchGPUCompute
          (word_of_int \<lceil>real_of_int WIDTH / real_of_int THREADS\<rceil>)
          (word_of_int \<lceil>real_of_int HEIGHT / real_of_int THREADS\<rceil>) 1,
        SDL_EndGPUComputePass,
        SDL_BlitGPUTexture (word_of_int WIDTH) (word_of_int HEIGHT) box,
        SDL_SubmitGPUCommandBuffer])
     \<and> (\<lceil>real_of_int WIDTH / real_of_int THREADS\<rceil> - 1) * THREADS < WIDTH
     \<and> WIDTH \<le> \<lceil>real_of_int WIDTH / real_of_int THREADS\<rceil> * THREADS
     \<and> (\<lceil>real_of_int HEIGHT / real_of_int THREADS\<rceil> - 1) * THREADS < HEIGHT
     \<and> HEIGHT \<le> \<lceil>real_of_int HEIGHT / real_of_int THREADS\<rceil> * THREADS"
proof -
  have gx: "groups WIDTH THREADS = Some \<lceil>real_of_int WIDTH / real_of_int THREADS\<rceil>"
    using T by (intro groups_ceiling) (simp_all add: WIDTH_def)
  have gy: "groups HEIGHT THREADS = Some \<lceil>real_of_int HEIGHT / real_of_int THREADS\<rceil>"
    using T by (intro groups_ceiling) (simp_all add: HEIGHT_def)
  have "Draw THREADS env s = Some (s\<lparr>uniformBuffer := frame_params s\<rparr>,
       [SDL_AcquireGPUCommandBuffer, SDL_WaitAndAcquireGPUSwapchainTexture,
        SDL_BeginGPUComputePass, SDL_BindGPUComputePipeline,
        SDL_PushGPUComputeUniformData (frame_params s),
        SDL_BindGPUComputeStorageBuffers,
        SDL_DispatchGPUCompute
          (word_of_int \<lceil>real_of_int WIDTH / real_of_int THREADS\<rceil>)
          (word_of_int \<lceil>real_of_int HEIGHT / real_of_int THREADS\<rceil>) 1,
        SDL_EndGPUComputePass,
        SDL_BlitGPUTexture (word_of_int WIDTH) (word_of_int HEIGHT) box,
        SDL_SubmitGPUCommandBuffer])"
    using env by (simp add: Draw_def gx gy box)
  moreover have "(\<lceil>real_of_int d / real_of_int THREADS\<rceil> - 1) * THREADS < d
      \<and> d \<le> \<lceil>real_of_int d / real_of_int THREADS\<rceil> * THREADS" for d
    using div_round_up_cover [OF T(1), of d] div_round_up_ceiling [OF T(1), of d] by simp
  ultimately show ?thesis by blast
qed

text \<open>
  C8, witness: with 16 threads to a group, a 960 by 720 target gets 60 by 45 groups.
\<close>

theorem dispatch_covers_image_witness:
  "(0 :: int) < 16 \<and> (16 :: int) < 2 ^ 31 - 960
   \<and> commandBuffer_ok (frame_ok 960 720) \<and> swapchain_ok (frame_ok 960 720)
   \<and> swapchainTexture_ok (frame_ok 960 720) \<and> swapchain_width (frame_ok 960 720) \<noteq> 0
   \<and> swapchain_height (frame_ok 960 720) \<noteq> 0 \<and> computePass_ok (frame_ok 960 720)
   \<and> letterbox (swapchain_width (frame_ok 960 720)) (swapchain_height (frame_ok 960 720))
       = Some \<lparr>rect_x = 0, rect_y = 0, rect_w = 960, rect_h = 720\<rparr>
   \<and> Draw 16 (frame_ok 960 720) host_init = Some (host_init\<lparr>uniformBuffer := frame_params host_init\<rparr>,
       [SDL_AcquireGPUCommandBuffer, SDL_WaitAndAcquireGPUSwapchainTexture,
        SDL_BeginGPUComputePass, SDL_BindGPUComputePipeline,
        SDL_PushGPUComputeUniformData (frame_params host_init),
        SDL_BindGPUComputeStorageBuffers,
        SDL_DispatchGPUCompute 60 45 1,
        SDL_EndGPUComputePass,
        SDL_BlitGPUTexture 960 720 \<lparr>rect_x = 0, rect_y = 0, rect_w = 960, rect_h = 720\<rparr>,
        SDL_SubmitGPUCommandBuffer])"
proof -
  have box: "letterbox (swapchain_width (frame_ok 960 720)) (swapchain_height (frame_ok 960 720))
       = Some \<lparr>rect_x = 0, rect_y = 0, rect_w = 960, rect_h = 720\<rparr>"
    unfolding frame_ok_def by code_simp
  show ?thesis
    using dispatch_covers_image [of 16 "frame_ok 960 720"
        "\<lparr>rect_x = 0, rect_y = 0, rect_w = 960, rect_h = 720\<rparr>" host_init] box
    by (simp add: frame_ok_def WIDTH_def HEIGHT_def)
qed

subsection \<open>C9: the rectangle lies within the target\<close>

text \<open>
  C9, as the code has it. For every target of non-zero width and height below \<open>2 ^ 23\<close>
  pixels, the rectangle is defined and lies within the target: its offsets are unsigned, and
  offset plus extent does not exceed the target in either direction.
\<close>

theorem letterbox_within_target:
  assumes W: "0 < uint width" "uint width < 2 ^ 23"
    and H: "0 < uint height" "uint height < 2 ^ 23"
  shows "\<exists>r. letterbox width height = Some r
     \<and> uint (rect_x r) + uint (rect_w r) \<le> uint width
     \<and> uint (rect_y r) + uint (rect_h r) \<le> uint height"
proof -
  have Wn: "uint width < 8388608" and Hn: "uint height < 8388608" using W(2) H(2) by simp_all
  have uw: "u2f width = real_of_int (uint width)" using W by (intro u2f_exact) simp
  have uh: "u2f height = real_of_int (uint height)" using H by (intro u2f_exact) simp
  have cmp: "fdiv (u2f width) (u2f height) < fdiv (i2f WIDTH) (i2f HEIGHT)
      \<longleftrightarrow> 3 * uint width < 4 * uint height"
    unfolding uw uh using W H by (subst aspect_compare) (simp_all add: WIDTH_def HEIGHT_def)
  show ?thesis
  proof (cases "3 * uint width < 4 * uint height")
    case True
    define v where "v = fdiv (fmul (i2f HEIGHT) (u2f width)) (i2f WIDTH)"
    define k where "k = uint height - \<lfloor>v\<rfloor>"
    have "0 \<le> v \<and> \<lfloor>v\<rfloor> \<le> uint height"
      unfolding v_def uw i2f_WIDTH i2f_HEIGHT using W(1) H(2) True by (rule narrow_height_le)
    then have v0: "0 \<le> v" and v: "0 \<le> \<lfloor>v\<rfloor>" "\<lfloor>v\<rfloor> \<le> uint height" by simp_all
    have "v < real_of_int (uint height) + 1" using v(2) by linarith
    then have "v \<le> real_of_int (uint height + 1)" by simp
    then have f: "f2u v = Some (word_of_int \<lfloor>v\<rfloor>)"
      and u: "uint (word_of_int \<lfloor>v\<rfloor> :: u32) = \<lfloor>v\<rfloor>"
      using f2u_bounded [of v "uint height + 1"] v0 Hn by simp_all
    have "0 \<le> k" and "k < 8388608" using v Hn unfolding k_def by linarith+
    then have k: "0 \<le> k" "k < 2 ^ 24" by simp_all
    have "uint (height - word_of_int \<lfloor>v\<rfloor>) = k"
      unfolding k_def using v by (rule uint_sub_word_of_int)
    then have "u2f (height - word_of_int \<lfloor>v\<rfloor>) = real_of_int k"
      using k by (simp add: u2f_exact)
    then have y: "f2u (fdiv (u2f (height - word_of_int \<lfloor>v\<rfloor>)) 2) = Some (word_of_int (k div 2))"
      using centre_offset [OF k] by simp
    have "uint (word_of_int (k div 2) :: u32) = k div 2"
      using k by (intro uint_word_of_int_small) simp_all
    moreover have "k div 2 + \<lfloor>v\<rfloor> \<le> uint height" using k unfolding k_def by linarith
    moreover have "letterbox width height = Some
        \<lparr>rect_x = 0, rect_y = word_of_int (k div 2), rect_w = width, rect_h = word_of_int \<lfloor>v\<rfloor>\<rparr>"
      unfolding letterbox_def using True cmp
      by (simp add: f [unfolded v_def] y [unfolded v_def] f2u_0 v_def)
    ultimately show ?thesis using u by simp
  next
    case False
    define v where "v = fdiv (fmul (i2f WIDTH) (u2f height)) (i2f HEIGHT)"
    define k where "k = uint width - \<lfloor>v\<rfloor>"
    have "0 \<le> v \<and> \<lfloor>v\<rfloor> \<le> uint width"
      unfolding v_def uh i2f_WIDTH i2f_HEIGHT using H(1) W(2) False by (intro wide_width_le) simp_all
    then have v0: "0 \<le> v" and v: "0 \<le> \<lfloor>v\<rfloor>" "\<lfloor>v\<rfloor> \<le> uint width" by simp_all
    have "v < real_of_int (uint width) + 1" using v(2) by linarith
    then have "v \<le> real_of_int (uint width + 1)" by simp
    then have f: "f2u v = Some (word_of_int \<lfloor>v\<rfloor>)"
      and u: "uint (word_of_int \<lfloor>v\<rfloor> :: u32) = \<lfloor>v\<rfloor>"
      using f2u_bounded [of v "uint width + 1"] v0 Wn by simp_all
    have "0 \<le> k" and "k < 8388608" using v Wn unfolding k_def by linarith+
    then have k: "0 \<le> k" "k < 2 ^ 24" by simp_all
    have "uint (width - word_of_int \<lfloor>v\<rfloor>) = k"
      unfolding k_def using v by (rule uint_sub_word_of_int)
    then have "u2f (width - word_of_int \<lfloor>v\<rfloor>) = real_of_int k"
      using k by (simp add: u2f_exact)
    then have x: "f2u (fdiv (u2f (width - word_of_int \<lfloor>v\<rfloor>)) 2) = Some (word_of_int (k div 2))"
      using centre_offset [OF k] by simp
    have "uint (word_of_int (k div 2) :: u32) = k div 2"
      using k by (intro uint_word_of_int_small) simp_all
    moreover have "k div 2 + \<lfloor>v\<rfloor> \<le> uint width" using k unfolding k_def by linarith
    moreover have "letterbox width height = Some
        \<lparr>rect_x = word_of_int (k div 2), rect_y = 0, rect_w = word_of_int \<lfloor>v\<rfloor>, rect_h = height\<rparr>"
      unfolding letterbox_def using False cmp
      by (simp add: f [unfolded v_def] x [unfolded v_def] f2u_0 v_def)
    ultimately show ?thesis using u by simp
  qed
qed

text \<open>
  C9, witness: a target of 8388607 by 6291455.
\<close>

theorem letterbox_within_target_witness:
  "0 < uint (8388607 :: u32) \<and> uint (8388607 :: u32) < 2 ^ 23
   \<and> 0 < uint (6291455 :: u32) \<and> uint (6291455 :: u32) < 2 ^ 23
   \<and> (\<exists>r. letterbox 8388607 6291455 = Some r
     \<and> uint (rect_x r) + uint (rect_w r) \<le> uint (8388607 :: u32)
     \<and> uint (rect_y r) + uint (rect_h r) \<le> uint (6291455 :: u32))"
  using letterbox_within_target [of 8388607 6291455] by simp

text \<open>
  C9, counterexample. A target of 11930484 by 8947863 is exactly 4:3. The product
  \<open>960 * 8947863\<close> is rounded up in binary32, the quotient by 720 then rounds to 11930485,
  one more than the target width; the unsigned difference wraps around to \<open>2 ^ 32 - 1\<close> and
  the horizontal offset becomes \<open>2 ^ 31\<close>.
\<close>

theorem letterbox_overflow_counterexample:
  "letterbox 11930484 8947863
     = Some \<lparr>rect_x = 2147483648, rect_y = 0, rect_w = 11930485, rect_h = 8947863\<rparr>
   \<and> \<not> uint (2147483648 :: u32) + uint (11930485 :: u32) \<le> uint (11930484 :: u32)"
  by code_simp

subsection \<open>C10: a skipped frame leaves the statics alone\<close>

text \<open>
  C10, as the code has it. When no command buffer or no swapchain texture is acquired, or
  the target has zero area, \<^verbatim>\<open>Draw\<close> changes nothing. \<^verbatim>\<open>Draw\<close> never changes yaw, pitch and
  distance, nor the object count and the disk radii. It recomputes the other fields of the
  uniform record exactly in the frames that reach \<^verbatim>\<open>SDL_BeginGPUComputePass\<close>, whether or not
  the pass then begins.
\<close>

theorem skipped_frame_keeps_state:
  "(\<not> commandBuffer_ok env \<or> \<not> swapchain_ok env \<or> \<not> swapchainTexture_ok env
      \<or> swapchain_width env = 0 \<or> swapchain_height env = 0
     \<longrightarrow> map_option fst (Draw THREADS env s) = Some s)
   \<and> (Draw THREADS env s = Some (s', calls)
     \<longrightarrow> pitch s' = pitch s \<and> yaw s' = yaw s \<and> distance s' = distance s
       \<and> ObjectCount (uniformBuffer s') = ObjectCount (uniformBuffer s)
       \<and> DiskR1 (uniformBuffer s') = DiskR1 (uniformBuffer s)
       \<and> DiskR2 (uniformBuffer s') = DiskR2 (uniformBuffer s)
       \<and> (if commandBuffer_ok env \<and> swapchain_ok env \<and> swapchainTexture_ok env
             \<and> swapchain_width env \<noteq> 0 \<and> swapchain_height env \<noteq> 0
           then s' = s\<lparr>uniformBuffer := frame_params s\<rparr> \<and> SDL_BeginGPUComputePass \<in> set calls
           else s' = s \<and> SDL_BeginGPUComputePass \<notin> set calls))"
  by (auto simp: Draw_def frame_params_def Let_def split: if_splits bind_splits)

text \<open>
  C10, witness: a frame whose swapchain texture is not acquired.
\<close>

theorem skipped_frame_keeps_state_witness:
  "\<not> swapchain_ok frame_no_swapchain
   \<and> Draw 16 frame_no_swapchain host_init = Some (host_init,
        [SDL_AcquireGPUCommandBuffer, SDL_WaitAndAcquireGPUSwapchainTexture,
         SDL_Log ''Failed to acquire swapchain texture'', SDL_CancelGPUCommandBuffer])
   \<and> map_option fst (Draw 16 frame_no_swapchain host_init) = Some host_init"
proof -
  have d: "Draw 16 frame_no_swapchain host_init = Some (host_init,
        [SDL_AcquireGPUCommandBuffer, SDL_WaitAndAcquireGPUSwapchainTexture,
         SDL_Log ''Failed to acquire swapchain texture'', SDL_CancelGPUCommandBuffer])"
    by (simp add: frame_no_swapchain_def frame_ok_def Draw_def)
  have "\<not> swapchain_ok frame_no_swapchain"
    by (simp add: frame_no_swapchain_def frame_ok_def)
  then show ?thesis
    using d skipped_frame_keeps_state [of frame_no_swapchain 16 host_init host_init
      "[SDL_AcquireGPUCommandBuffer, SDL_WaitAndAcquireGPUSwapchainTexture,
        SDL_Log ''Failed to acquire swapchain texture'', SDL_CancelGPUCommandBuffer]"]
    by blast
qed

text \<open>
  C10, counterexample: the compute pass fails to begin at the first frame. Nothing is
  dispatched, yet the uniform record was recomputed: its aspect was 0 and is now the binary32
  quotient of 960 by 720.
\<close>

theorem failed_pass_recomputes_counterexample:
  "map_option snd (Draw 16 frame_no_pass host_init) = Some
     [SDL_AcquireGPUCommandBuffer, SDL_WaitAndAcquireGPUSwapchainTexture,
      SDL_BeginGPUComputePass, SDL_Log ''Failed to begin compute pass'',
      SDL_SubmitGPUCommandBuffer]
   \<and> map_option (Aspect \<circ> uniformBuffer \<circ> fst) (Draw 16 frame_no_pass host_init)
       = Some (11184811 / 8388608)
   \<and> Aspect (uniformBuffer host_init) = 0"
  by (simp add: Draw_def frame_no_pass_def frame_ok_def frame_params_def Let_def image_aspect
      host_init_def)

end
